theory Spec2Isabelle
  imports Complex_Main "HOL-Library.Word" "HOL-Library.Sublist" "HOL-Library.Multiset"
    "HOL-Library.Product_Lexorder"
begin

section \<open>JavaScript values used by the services\<close>

text \<open>
  A JavaScript string is modelled as a \<^typ>\<open>string\<close>: one \<^typ>\<open>char\<close> per UTF-16 code
  unit, for the code units below 256 (Latin-1). A JavaScript number is modelled as an IEEE
  double (the type \<open>double\<close> of the next section) where the source computes with
  fractions (similarities, embedding components), and as a \<^typ>\<open>nat\<close> or \<^typ>\<open>int\<close>
  where it counts lines, chunks or errors: integers far below \<open>2 ^ 53\<close>, on which the
  arithmetic of doubles is exact. \<open>undefined\<close> and \<open>null\<close> are \<open>None\<close>.
\<close>

definition nl :: char where
  "nl = CHR 0x0A"

text \<open>\<open>String.prototype.split(sep)\<close> for a one-character separator: never empty.\<close>

fun split_on :: "char \<Rightarrow> string \<Rightarrow> string list" where
  "split_on c [] = [[]]"
| "split_on c (x # xs) =
     (if x = c then [] # split_on c xs
      else (case split_on c xs of
              [] \<Rightarrow> [[x]]
            | l # ls \<Rightarrow> (x # l) # ls))"

text \<open>\<open>Array.prototype.join(sep)\<close> on an array of strings.\<close>

fun join :: "string \<Rightarrow> string list \<Rightarrow> string" where
  "join sep [] = []"
| "join sep [x] = x"
| "join sep (x # y # ys) = x @ sep @ join sep (y # ys)"

text \<open>White space of ECMAScript (\<open>WhiteSpace\<close> and \<open>LineTerminator\<close>) below 256:
  TAB, LF, VT, FF, CR, SP and NBSP. \<open>trim\<close> and the regular expression class \<open>\s\<close> use it.\<close>

definition is_space :: "char \<Rightarrow> bool" where
  "is_space c = (of_char c \<in> {9, 10, 11, 12, 13, 32, 160 :: nat})"

definition trim :: "string \<Rightarrow> string" where
  "trim s = rev (dropWhile is_space (rev (dropWhile is_space s)))"

text \<open>\<open>Array.prototype.slice(0, n)\<close> after \<open>ToIntegerOrInfinity\<close>: a negative end
  counts from the end of the array.\<close>

definition slice0 :: "'a list \<Rightarrow> int \<Rightarrow> 'a list" where
  "slice0 xs n = (if n < 0 then take (length xs - nat (- n)) xs else take (nat n) xs)"

text \<open>Decimal printing of a line number inside a template literal.\<close>

function show_nat :: "nat \<Rightarrow> string" where
  "show_nat n =
     (if n < 10 then [char_of (48 + n)]
      else show_nat (n div 10) @ [char_of (48 + n mod 10)])"
  by pat_completeness auto
termination
  by (relation "measure id") auto

declare show_nat.simps [simp del]

text \<open>\<open>[...new Set(xs)]\<close>: the distinct elements in order of first occurrence.\<close>

definition uniq :: "'a list \<Rightarrow> 'a list" where
  "uniq xs = rev (remdups (rev xs))"


section \<open>IEEE 754 double precision numbers\<close>

text \<open>
  The numbers of JavaScript are the binary64 values of IEEE 754: the finite doubles, the
  two infinities and NaN. A finite double is modelled by the real number it denotes,
  \<open>Fin x\<close>; the real numbers that are doubles are \<open>0\<close> and \<open>m * 2 ^ e\<close> for integers
  \<open>\<bar>m\<bar> < 2 ^ 53\<close> and \<open>- 1074 \<le> e \<le> 971\<close>. The two zeros \<open>+0\<close> and \<open>-0\<close> are one value
  here: they are equal for \<open>===\<close>, \<open><\<close> and \<open>>\<close> and print alike, and differ only as
  divisors, and the services never divide by a zero (two divisions are guarded by
  \<open>> 0\<close>, the third divides by a number that is at least 1).
\<close>

datatype double = Fin real | PInf | NInf | NaN

definition pow2 :: "int \<Rightarrow> real" where
  "pow2 e = 2 powr real_of_int e"

text \<open>The integer nearest to \<open>q\<close>, the even one of the two when \<open>q\<close> lies half-way.\<close>

definition round_even :: "real \<Rightarrow> int" where
  "round_even q =
     (let f = \<lfloor>q\<rfloor>; r = q - of_int f
      in if r < 1 / 2 then f else if 1 / 2 < r then f + 1 else if even f then f else f + 1)"

text \<open>
  Rounding of an exact result to the nearest double, ties to even (the rounding of every
  arithmetic operation of ECMAScript). A number \<open>x\<close> with \<open>2 ^ b \<le> \<bar>x\<bar> < 2 ^ (b + 1)\<close> is
  rounded to a multiple of \<open>2 ^ (b - 52)\<close> (53 significant bits); below \<open>2 ^ - 1022\<close> the
  spacing stays \<open>2 ^ - 1074\<close> (subnormal numbers, gradual underflow to zero); a result
  that reaches \<open>2 ^ 1024\<close> is an infinity. \<open>rnd\<close> is the rounded value before the overflow
  test.
\<close>

definition rnd :: "real \<Rightarrow> real" where
  "rnd x = (let e = max \<lfloor>log 2 \<bar>x\<bar>\<rfloor> (- 1022); ulp = pow2 (e - 52)
            in of_int (round_even (x / ulp)) * ulp)"

definition round64 :: "real \<Rightarrow> double" where
  "round64 x =
     (if x = 0 then Fin 0
      else if pow2 1024 \<le> \<bar>rnd x\<bar> then (if 0 < x then PInf else NInf)
      else Fin (rnd x))"

text \<open>\<open>+\<close>, \<open>*\<close>, \<open>/\<close> and \<open>Math.sqrt\<close> (correctly rounded, as the square root of the
  processor is).\<close>

fun fadd :: "double \<Rightarrow> double \<Rightarrow> double" where
  "fadd (Fin x) (Fin y) = round64 (x + y)"
| "fadd NaN _ = NaN"
| "fadd _ NaN = NaN"
| "fadd PInf NInf = NaN"
| "fadd NInf PInf = NaN"
| "fadd PInf _ = PInf"
| "fadd _ PInf = PInf"
| "fadd NInf _ = NInf"
| "fadd _ NInf = NInf"

fun fmul :: "double \<Rightarrow> double \<Rightarrow> double" where
  "fmul (Fin x) (Fin y) = round64 (x * y)"
| "fmul NaN _ = NaN"
| "fmul _ NaN = NaN"
| "fmul (Fin x) PInf = (if x = 0 then NaN else if 0 < x then PInf else NInf)"
| "fmul (Fin x) NInf = (if x = 0 then NaN else if 0 < x then NInf else PInf)"
| "fmul PInf (Fin y) = (if y = 0 then NaN else if 0 < y then PInf else NInf)"
| "fmul NInf (Fin y) = (if y = 0 then NaN else if 0 < y then NInf else PInf)"
| "fmul PInf PInf = PInf"
| "fmul PInf NInf = NInf"
| "fmul NInf PInf = NInf"
| "fmul NInf NInf = PInf"

text \<open>A division by zero is not reached by the services; the zero divisor is read as \<open>+0\<close>.\<close>

fun fdiv :: "double \<Rightarrow> double \<Rightarrow> double" where
  "fdiv (Fin x) (Fin y) =
     (if y = 0 then (if x = 0 then NaN else if 0 < x then PInf else NInf) else round64 (x / y))"
| "fdiv NaN _ = NaN"
| "fdiv _ NaN = NaN"
| "fdiv (Fin x) PInf = Fin 0"
| "fdiv (Fin x) NInf = Fin 0"
| "fdiv PInf (Fin y) = (if 0 \<le> y then PInf else NInf)"
| "fdiv NInf (Fin y) = (if 0 \<le> y then NInf else PInf)"
| "fdiv PInf PInf = NaN"
| "fdiv PInf NInf = NaN"
| "fdiv NInf PInf = NaN"
| "fdiv NInf NInf = NaN"

fun fsqrt :: "double \<Rightarrow> double" where
  "fsqrt (Fin x) = (if x < 0 then NaN else round64 (sqrt x))"
| "fsqrt PInf = PInf"
| "fsqrt NInf = NaN"
| "fsqrt NaN = NaN"

text \<open>\<open>a < b\<close> and \<open>a > b\<close>: false when an operand is NaN.\<close>

fun fless :: "double \<Rightarrow> double \<Rightarrow> bool" where
  "fless (Fin x) (Fin y) = (x < y)"
| "fless NaN _ = False"
| "fless _ NaN = False"
| "fless NInf NInf = False"
| "fless NInf _ = True"
| "fless _ NInf = False"
| "fless PInf _ = False"
| "fless _ PInf = True"

definition fgt :: "double \<Rightarrow> double \<Rightarrow> bool" where
  "fgt a b = fless b a"

text \<open>The double of an array index or counter, and \<open>Math.round\<close>: the nearest integer, a
  half rounding up; infinities and NaN are returned as they are.\<close>

definition double_of_nat :: "nat \<Rightarrow> double" where
  "double_of_nat n = round64 (real n)"

fun js_round :: "double \<Rightarrow> double" where
  "js_round (Fin x) = Fin (of_int \<lfloor>x + 1 / 2\<rfloor>)"
| "js_round d = d"

text \<open>The place of a double that is not NaN in the descending order: \<open>Infinity\<close> first,
  then the finite doubles from the greatest down, then \<open>-Infinity\<close>; pairs are compared
  lexicographically.\<close>

fun descending_key :: "double \<Rightarrow> nat \<times> real" where
  "descending_key PInf = (0, 0)"
| "descending_key (Fin x) = (1, - x)"
| "descending_key NInf = (2, 0)"
| "descending_key NaN = (3, 0)"


section \<open>Data model\<close>

record code_structure =
  structure_type :: string
  structure_name :: string
  structure_line :: nat

text \<open>The fields that a parsed file and every chunk cut from it have in common.\<close>

record located_text =
  path :: string
  fileName :: string
  language :: string
  folder :: string
  content :: string

record parsed_file = located_text +
  lineCount :: nat
  structures :: "code_structure list"

text \<open>A chunk as \<open>chunkContent\<close> builds it. Only the summary chunk carries the property
  \<open>isSummary\<close>; its absence on the others reads as \<open>False\<close>.\<close>

record chunk = located_text +
  startLine :: nat
  endLine :: nat
  isSummary :: bool


section \<open>Chunker (vectorStore.service.js)\<close>

definition chunkSize :: nat where
  "chunkSize = 50"

definition overlap :: nat where
  "overlap = 10"

definition createFileSummary :: "parsed_file \<Rightarrow> string" where
  "createFileSummary file =
     (let summary = ''File: '' @ path file @ [nl] @ ''Language: '' @ language file @ [nl];
          summary = (if length (structures file) > 0
                     then foldl (\<lambda>acc s. acc @ ''- '' @ structure_type s @ '': '' @ structure_name s
                                   @ '' (line '' @ show_nat (structure_line s) @ '')'' @ [nl])
                            (summary @ [nl] @ ''Code structures:'' @ [nl]) (structures file)
                     else summary);
          firstLines = join [nl] (take 20 (split_on nl (content file)))
      in summary @ [nl] @ ''Content preview:'' @ [nl] @ firstLines)"

text \<open>The test that guards \<open>chunks.push\<close> for the window starting at index \<open>i\<close>.\<close>

definition window_text :: "string list \<Rightarrow> nat \<Rightarrow> string" where
  "window_text lines i = join [nl] (take chunkSize (drop i lines))"

definition window_emitted :: "string list \<Rightarrow> nat \<Rightarrow> bool" where
  "window_emitted lines i = (length (trim (window_text lines i)) > 0)"

text \<open>The \<open>for\<close> loop of \<open>chunkContent\<close>, from index \<open>i\<close> on, in steps of
  \<open>chunkSize - overlap\<close>; the chunks are returned in the order they are pushed.\<close>

function windows :: "parsed_file \<Rightarrow> string list \<Rightarrow> nat \<Rightarrow> chunk list" where
  "windows file lines i =
     (if i < length lines then
        (let chunkLines = take chunkSize (drop i lines);
             startLine = i + 1;
             endLine = min (i + chunkSize) (length lines)
         in (if length (trim (join [nl] chunkLines)) > 0
             then [\<lparr>path = path file, fileName = fileName file, language = language file,
                    folder = folder file, content = join [nl] chunkLines,
                    startLine = startLine, endLine = endLine, isSummary = False\<rparr>]
             else [])
            @ windows file lines (i + (chunkSize - overlap)))
      else [])"
  by pat_completeness auto
termination
  by (relation "measure (\<lambda>(file, lines, i). length lines - i)")
     (auto simp: chunkSize_def overlap_def)

declare windows.simps [simp del]

definition summary_chunk :: "parsed_file \<Rightarrow> string list \<Rightarrow> chunk" where
  "summary_chunk file lines =
     \<lparr>path = path file, fileName = fileName file, language = language file,
      folder = folder file, content = createFileSummary file,
      startLine = 1, endLine = length lines, isSummary = True\<rparr>"

definition chunkContent :: "parsed_file \<Rightarrow> chunk list" where
  "chunkContent file =
     (let lines = split_on nl (content file)
      in summary_chunk file lines # windows file lines 0)"

text \<open>The windowed (non-summary) chunks of a chunk list.\<close>

definition windowed :: "chunk list \<Rightarrow> chunk list" where
  "windowed cs = filter (\<lambda>c. \<not> isSummary c) cs"

text \<open>The number of windowed chunks that the specification's formula
  \<open>ceil(max(L-10,0)/40)+1\<close> predicts for a file of \<open>L\<close> lines.\<close>

definition spec_window_count :: "nat \<Rightarrow> nat" where
  "spec_window_count L = nat ((max (int L - 10) 0 + 39) div 40 + 1)"



section \<open>AI provider service (aiProvider.service.js)\<close>

subsection \<open>String helpers of the offline provider\<close>

text \<open>\<open>String.prototype.toLowerCase\<close> on Latin-1: A-Z and the accented capitals
  (0xC0-0xDE except the multiplication sign 0xD7) move up by 32.\<close>

definition toLowerCase_char :: "char \<Rightarrow> char" where
  "toLowerCase_char c =
     (let n = (of_char c :: nat)
      in if (65 \<le> n \<and> n \<le> 90) \<or> (192 \<le> n \<and> n \<le> 222 \<and> n \<noteq> 215)
         then char_of (n + 32) else c)"

definition toLowerCase :: "string \<Rightarrow> string" where
  "toLowerCase s = map toLowerCase_char s"

text \<open>The regular expression class \<open>\w\<close>: ASCII letters, digits and the underscore.\<close>

definition is_word_char :: "char \<Rightarrow> bool" where
  "is_word_char c =
     (let n = (of_char c :: nat)
      in (48 \<le> n \<and> n \<le> 57) \<or> (65 \<le> n \<and> n \<le> 90) \<or> n = 95 \<or> (97 \<le> n \<and> n \<le> 122))"

text \<open>\<open>.replace(/[^\w\s]/g, ' ')\<close>\<close>

definition replace_non_word :: "string \<Rightarrow> string" where
  "replace_non_word s = map (\<lambda>c. if is_word_char c \<or> is_space c then c else CHR '' '') s"

text \<open>\<open>.split(/\s+/)\<close>: split at every maximal run of white space.\<close>

function split_ws :: "string \<Rightarrow> string list" where
  "split_ws [] = [[]]"
| "split_ws (x # xs) =
     (if is_space x then [] # split_ws (dropWhile is_space xs)
      else (case split_ws xs of
              [] \<Rightarrow> [[x]]
            | l # ls \<Rightarrow> (x # l) # ls))"
  by pat_completeness auto
termination
  by (relation "measure length") (auto simp: le_imp_less_Suc length_dropWhile_le)

subsection \<open>Deterministic offline embedding\<close>

text \<open>\<open>simpleHash\<close>. The source computes \<open>((hash << 5) - hash) + char\<close> on doubles, exactly,
  and \<open>hash & hash\<close> brings the value back to a signed 32-bit integer; on \<^typ>\<open>32 word\<close>
  the same arithmetic wraps at every step, with the same result modulo \<open>2 ^ 32\<close>.\<close>

definition simpleHash :: "string \<Rightarrow> 32 word" where
  "simpleHash str =
     foldl (\<lambda>hash c. let hash = (push_bit 5 hash - hash) + word_of_nat (of_char c)
                      in and hash hash) 0 str"

text \<open>\<open>Math.abs(hash) % 384\<close>\<close>

definition bucket :: "string \<Rightarrow> nat" where
  "bucket word = nat \<bar>sint (simpleHash word)\<bar> mod 384"

definition tokens :: "string \<Rightarrow> string list" where
  "tokens text = filter (\<lambda>w. length w > 2) (split_ws (replace_non_word (toLowerCase text)))"

text \<open>The \<open>forEach\<close> over the words with their index, on the array of 384 zeros.\<close>

definition accumulate :: "string list \<Rightarrow> double list" where
  "accumulate words =
     foldl (\<lambda>embedding (idx, word).
              let position = bucket word
              in embedding[position :=
                   fadd (embedding ! position)
                     (fdiv (Fin 1) (fadd (Fin 1) (fmul (double_of_nat idx) (round64 (1 / 10)))))])
       (replicate 384 (Fin 0)) (enumerate 0 words)"

text \<open>\<open>Math.sqrt(embedding.reduce((sum, val) => sum + val * val, 0))\<close>\<close>

definition magnitude_of :: "double list \<Rightarrow> double" where
  "magnitude_of embedding = fsqrt (foldl (\<lambda>sum val. fadd sum (fmul val val)) (Fin 0) embedding)"

definition createSimpleEmbedding :: "string \<Rightarrow> double list" where
  "createSimpleEmbedding text =
     (let words = tokens text;
          embedding = accumulate words;
          magnitude = magnitude_of embedding
      in if fgt magnitude (Fin 0) then map (\<lambda>v. fdiv v magnitude) embedding else embedding)"

subsection \<open>Demo completion\<close>

definition cr :: char where
  "cr = CHR 0x0D"

text \<open>The first index of the list for which \<open>f\<close> gives a result (backtracking order).\<close>

fun first_some :: "(nat \<Rightarrow> 'a option) \<Rightarrow> nat list \<Rightarrow> 'a option" where
  "first_some f [] = None"
| "first_some f (k # ks) = (case f k of Some r \<Rightarrow> Some r | None \<Rightarrow> first_some f ks)"

text \<open>\<open>/Question:\s*(.+?)(?:\n|$)/i\<close>, after the literal has matched: the greedy \<open>\s*\<close>
  gives back one character at a time; the lazy group takes characters other than line
  terminators until a line feed or the end of the input follows.\<close>

definition question_capture :: "string \<Rightarrow> string option" where
  "question_capture rest =
     first_some
       (\<lambda>k. let r = drop k rest;
                m = takeWhile (\<lambda>c. c \<noteq> nl \<and> c \<noteq> cr) r;
                t = drop (length m) r
            in if m \<noteq> [] \<and> (case t of [] \<Rightarrow> True | c # _ \<Rightarrow> c = nl) then Some m else None)
       (rev [0 ..< Suc (length (takeWhile is_space rest))])"

fun match_question :: "string \<Rightarrow> string option" where
  "match_question [] = None"
| "match_question (c # cs) =
     (if toLowerCase (take 9 (c # cs)) = ''question:''
      then (case question_capture (drop 9 (c # cs)) of
              Some m \<Rightarrow> Some m
            | None \<Rightarrow> match_question cs)
      else match_question cs)"

text \<open>\<open>/File:\s*([^\n]+)/g\<close> at the start of \<open>s\<close>: the captured group and the length
  of the whole match.\<close>

definition match_file_here :: "string \<Rightarrow> (string \<times> nat) option" where
  "match_file_here s =
     (if take 5 s = ''File:''
      then first_some
             (\<lambda>k. let m = takeWhile (\<lambda>c. c \<noteq> nl) (drop (5 + k) s)
                  in if m \<noteq> [] then Some (m, 5 + k + length m) else None)
             (rev [0 ..< Suc (length (takeWhile is_space (drop 5 s)))])
      else None)"

text \<open>\<open>matchAll\<close>: the matches from left to right, each search resuming where the
  previous match ended.\<close>

function file_matches :: "string \<Rightarrow> string list" where
  "file_matches s =
     (if s = [] then []
      else (case match_file_here s of
              Some (m, len) \<Rightarrow> m # file_matches (drop (max 1 len) s)
            | None \<Rightarrow> file_matches (tl s)))"
  by pat_completeness auto
termination
  by (relation "measure length") auto

declare file_matches.simps [simp del]

definition generateDemoCompletion :: "string \<Rightarrow> string" where
  \<open>generateDemoCompletion userPrompt =
     (let question = (case match_question userPrompt of Some q \<Rightarrow> q | None \<Rightarrow> ''your question'');
          files = take 3 (file_matches userPrompt);
          response = ''## Demo Mode Response'' @ [nl, nl];
          response = response @ ''I analyzed your codebase to answer: "'' @ question @ ''"'' @ [nl, nl];
          response = (if length files > 0
                      then foldl (\<lambda>acc file. acc @ ''- `'' @ file @ ''`'' @ [nl])
                             (response @ ''### Relevant Files Found:'' @ [nl]) files @ [nl]
                      else response);
          response = response @ ''### Analysis:'' @ [nl];
          response = response @ ''In **demo mode**, I'' @ [CHR 0x27] @ ''m providing a simulated response. '';
          response = response @ ''The semantic search found relevant code sections based on keyword matching.'' @ [nl, nl];
          response = response @ ''To get AI-powered answers, configure one of these providers:'' @ [nl, nl];
          response = response @ ''1. **Ollama (Free, Local)**'' @ [nl];
          response = response @ ''   - Install: `brew install ollama` or download from ollama.ai'' @ [nl];
          response = response @ ''   - Run: `ollama serve` then `ollama pull llama3.2`'' @ [nl];
          response = response @ ''   - Set: `AI_PROVIDER=ollama`'' @ [nl, nl];
          response = response @ ''2. **Groq (Free Tier)**'' @ [nl];
          response = response @ ''   - Get API key from console.groq.com'' @ [nl];
          response = response @ ''   - Set: `AI_PROVIDER=groq` and `GROQ_API_KEY=your-key`'' @ [nl, nl];
          response = response @ ''3. **OpenAI**'' @ [nl];
          response = response @ ''   - Set: `AI_PROVIDER=openai` and `OPENAI_API_KEY=your-key`'' @ [nl]
      in response)\<close>


subsection \<open>Errors, console, provider requests\<close>

text \<open>The exceptions of the services, by the condition that raises them.\<close>

datatype error =
    ProjectNotFound string          \<comment> \<open>\<open>Project <id> not found. Please upload and index a codebase first.\<close>\<close>
  | FileNotFound string             \<comment> \<open>\<open>File <path> not found in project\<close>\<close>
  | RequestFailed string            \<comment> \<open>what a request to a provider raised, by its message\<close>
  | OllamaNotRunning                \<comment> \<open>\<open>Ollama is not running. Start it with: ollama serve\<close>\<close>
  | FailedToGenerateAnswer string   \<comment> \<open>\<open>Failed to generate answer: <message>\<close>\<close>
  | TypeError string

fun message :: "error \<Rightarrow> string" where
  "message (ProjectNotFound projectId) =
     ''Project '' @ projectId @ '' not found. Please upload and index a codebase first.''"
| "message (FileNotFound filePath) = ''File '' @ filePath @ '' not found in project''"
| "message (RequestFailed msg) = msg"
| "message OllamaNotRunning = ''Ollama is not running. Start it with: ollama serve''"
| "message (FailedToGenerateAnswer msg) = ''Failed to generate answer: '' @ msg"
| "message (TypeError msg) = msg"

text \<open>The lines written to the console, one constructor per \<open>console.log\<close>,
  \<open>console.warn\<close> or \<open>console.error\<close> statement.\<close>

datatype console_line =
    IndexingProject string nat          \<comment> \<open>log: \<open>Indexing project <id> with <n> files...\<close>\<close>
  | ProcessedChunks nat                 \<comment> \<open>log: \<open>Processed <n> chunks...\<close>\<close>
  | CouldNotEmbedChunk string string    \<comment> \<open>warn: \<open>Warning: Could not embed chunk from <path>: <message>\<close>\<close>
  | MoreEmbeddingErrors nat             \<comment> \<open>warn: \<open>... and <n> more embedding errors\<close>\<close>
  | IndexedChunks nat string            \<comment> \<open>log: \<open>Indexed <n> chunks for project <id>\<close>\<close>
  | OpenAIEmbeddingError string         \<comment> \<open>error: \<open>OpenAI embedding error: <message>\<close>\<close>
  | OpenAICompletionError string        \<comment> \<open>error: \<open>OpenAI completion error: <message>\<close>\<close>
  | OllamaEmbeddingError string         \<comment> \<open>error: \<open>Ollama embedding error: <message>\<close>\<close>
  | FallingBackToSimpleEmbedding        \<comment> \<open>warn: \<open>Falling back to simple embedding\<close>\<close>
  | OllamaCompletionError string        \<comment> \<open>error: \<open>Ollama completion error: <message>\<close>\<close>
  | GroqCompletionError string          \<comment> \<open>error: \<open>Groq completion error: <message>\<close>\<close>
  | ProcessingQuestion string string    \<comment> \<open>log: \<open>Processing question for project <id>: "<question>"\<close>\<close>
  | ErrorGeneratingAnswer string        \<comment> \<open>error: \<open>Error generating answer: <message>\<close>\<close>
  | ErrorExplainingFile string          \<comment> \<open>error: \<open>Error explaining file: <message>\<close>\<close>
  | ProviderBanner "string option" string \<comment> \<open>log: \<open>AI Provider: <name>\<close> and the status message\<close>

text \<open>The calls of the two exported provider operations, in the order they are made.\<close>

datatype provider_call =
    EmbeddingCall string
  | CompletionCall string string

text \<open>
  What lies outside the program: the environment variables and the answers of the remote
  services. A request either fails with a message (\<open>Inl\<close>: connection refused, a status
  that is not OK, a malformed body) or delivers the field the source reads from the
  response (\<open>Inr\<close>; the embedding may be \<open>undefined\<close>). The answer may depend on the
  number of provider calls made so far, so that the same text can fail once and succeed
  later.
\<close>

record network =
  openai_embeddings :: "nat \<Rightarrow> string \<Rightarrow> string + double list option"
  ollama_embeddings :: "nat \<Rightarrow> string \<Rightarrow> string + double list option"
  openai_chat :: "nat \<Rightarrow> string \<Rightarrow> string \<Rightarrow> string + string"
  ollama_chat :: "nat \<Rightarrow> string \<Rightarrow> string \<Rightarrow> string + string"
  groq_chat :: "nat \<Rightarrow> string \<Rightarrow> string \<Rightarrow> string + string"

record runtime =
  env :: "string \<rightharpoonup> string"
  net :: network
  inconsistent_sort :: "double list \<Rightarrow> nat list"

subsection \<open>Provider selection\<close>

text \<open>\<open>process.env.AI_PROVIDER?.toLowerCase() || AI_PROVIDERS.DEMO\<close>\<close>

definition getProvider :: "(string \<rightharpoonup> string) \<Rightarrow> string" where
  "getProvider e =
     (case e ''AI_PROVIDER'' of
        None \<Rightarrow> ''demo''
      | Some v \<Rightarrow> (if toLowerCase v = [] then ''demo'' else toLowerCase v))"

record provider_config =
  name :: string
  embeddingModel :: "string option"
  chatModel :: "string option"
  requiresKey :: bool
  keyEnvVar :: "string option"
  baseUrl :: "string option"

text \<open>
  The value of \<open>providerConfigs[provider]\<close>: one of the four own properties, or, since the
  object literal inherits from \<open>Object.prototype\<close>, the function \<open>Object\<close> for the key
  \<open>constructor\<close> and the prototype object for \<open>__proto__\<close> (of an inherited object only
  the \<open>name\<close> property matters below), or \<open>undefined\<close>.
\<close>

datatype config_lookup =
    Own provider_config
  | Inherited "string option"
  | Undefined

definition providerConfigs :: "(string \<rightharpoonup> string) \<Rightarrow> string \<Rightarrow> config_lookup" where
  "providerConfigs e provider =
     (if provider = ''openai'' then
        Own \<lparr>name = ''OpenAI'', embeddingModel = Some ''text-embedding-3-small'',
             chatModel = Some ''gpt-4o-mini'', requiresKey = True,
             keyEnvVar = Some ''OPENAI_API_KEY'', baseUrl = None\<rparr>
      else if provider = ''ollama'' then
        Own \<lparr>name = ''Ollama (Local)'', embeddingModel = Some ''nomic-embed-text'',
             chatModel = Some ''llama3.2'', requiresKey = False, keyEnvVar = None,
             baseUrl = Some (case e ''OLLAMA_BASE_URL'' of
                               None \<Rightarrow> ''http://localhost:11434''
                             | Some u \<Rightarrow> (if u = [] then ''http://localhost:11434'' else u))\<rparr>
      else if provider = ''groq'' then
        Own \<lparr>name = ''Groq (Free Tier)'', embeddingModel = None,
             chatModel = Some ''llama-3.1-8b-instant'', requiresKey = True,
             keyEnvVar = Some ''GROQ_API_KEY'', baseUrl = None\<rparr>
      else if provider = ''demo'' then
        Own \<lparr>name = ''Demo Mode'', embeddingModel = None, chatModel = None,
             requiresKey = False, keyEnvVar = None, baseUrl = None\<rparr>
      else if provider = ''constructor'' then Inherited (Some ''Object'')
      else if provider = ''__proto__'' then Inherited None
      else Undefined)"

text \<open>\<open>getProviderConfig().name\<close>: the spread copies own enumerable properties only, so
  the name is defined for the four configured providers and \<open>undefined\<close> otherwise.\<close>

definition getProviderConfig_name :: "(string \<rightharpoonup> string) \<Rightarrow> string option" where
  "getProviderConfig_name e =
     (case providerConfigs e (getProvider e) of
        Own config \<Rightarrow> Some (name config)
      | _ \<Rightarrow> None)"

record provider_status =
  status_provider :: string
  status_name :: "string option"
  isConfigured :: bool
  status_message :: string

definition getProviderStatus :: "(string \<rightharpoonup> string) \<Rightarrow> error + provider_status" where
  "getProviderStatus e =
     (let provider = getProvider e
      in case providerConfigs e provider of
           Undefined \<Rightarrow> Inl (TypeError ''Cannot read properties of undefined (reading 'name')'')
         | Inherited nm \<Rightarrow>
             Inr \<lparr>status_provider = provider, status_name = nm, isConfigured = True,
                  status_message = []\<rparr>
         | Own config \<Rightarrow>
             (if requiresKey config then
                (let apiKey = (case keyEnvVar config of None \<Rightarrow> None | Some var \<Rightarrow> e var);
                     present = (case apiKey of None \<Rightarrow> False | Some k \<Rightarrow> k \<noteq> [])
                 in Inr \<lparr>status_provider = provider, status_name = Some (name config),
                         isConfigured = present,
                         status_message =
                           (if present
                            then ''Using '' @ name config @ '' with ''
                                 @ (case chatModel config of None \<Rightarrow> ''null'' | Some m \<Rightarrow> m)
                            else ''Missing ''
                                 @ (case keyEnvVar config of None \<Rightarrow> ''undefined'' | Some var \<Rightarrow> var)
                                 @ '' environment variable'')\<rparr>)
              else if provider = ''ollama'' then
                Inr \<lparr>status_provider = provider, status_name = Some (name config),
                     isConfigured = True,
                     status_message =
                       ''Using Ollama at ''
                       @ (case baseUrl config of None \<Rightarrow> ''undefined'' | Some u \<Rightarrow> u)
                       @ ''. Make sure Ollama is running.''\<rparr>
              else if provider = ''demo'' then
                Inr \<lparr>status_provider = provider, status_name = Some (name config),
                     isConfigured = True,
                     status_message =
                       ''Demo mode - semantic search works, AI responses are simulated''\<rparr>
              else
                Inr \<lparr>status_provider = provider, status_name = Some (name config),
                     isConfigured = True, status_message = []\<rparr>))"

text \<open>The statements at the end of the module, run once when the module is loaded; an
  exception here makes the import of the module, and of every module that imports it, fail.\<close>

definition module_load :: "(string \<rightharpoonup> string) \<Rightarrow> error + console_line list" where
  "module_load e =
     (case getProviderStatus e of
        Inl err \<Rightarrow> Inl err
      | Inr status \<Rightarrow> Inr [ProviderBanner (status_name status) (status_message status)])"


section \<open>Project index (vectorStore.service.js): data\<close>

text \<open>An entry of \<open>store.vectors\<close>: the chunk with its \<open>embedding\<close>. The same object
  shape serves for the results of a search, where reading \<open>embedding\<close> gives \<open>None\<close>
  once the property has been removed.\<close>

record vector = chunk +
  embedding :: "double list option"

record scored = vector +
  similarity :: double

record index_stats =
  totalFiles :: nat
  totalChunks :: nat
  languages :: "string list"

record store =
  vectors :: "vector list"
  files :: "parsed_file list"
  indexedAt :: string
  stats :: index_stats

text \<open>The mutable state: the module-level map \<open>vectorStores\<close>, the console, and the
  provider calls made so far.\<close>

record world =
  vectorStores :: "string \<rightharpoonup> store"
  console :: "console_line list"
  calls :: "provider_call list"

definition emit :: "console_line \<Rightarrow> world \<Rightarrow> world" where
  "emit l w = w\<lparr>console := console w @ [l]\<rparr>"


section \<open>AI provider service: embedding and completion\<close>

definition createOpenAIEmbedding ::
  "network \<Rightarrow> string \<Rightarrow> world \<Rightarrow> (error + double list option) \<times> world" where
  "createOpenAIEmbedding n text w =
     (case openai_embeddings n (length (calls w)) (take 8000 text) of
        Inr e \<Rightarrow> (Inr e, w)
      | Inl msg \<Rightarrow> (Inl (RequestFailed msg), emit (OpenAIEmbeddingError msg) w))"

definition createOllamaEmbedding ::
  "network \<Rightarrow> string \<Rightarrow> world \<Rightarrow> (error + double list option) \<times> world" where
  "createOllamaEmbedding n text w =
     (case ollama_embeddings n (length (calls w)) (take 8000 text) of
        Inr e \<Rightarrow> (Inr e, w)
      | Inl msg \<Rightarrow>
          (Inr (Some (createSimpleEmbedding text)),
           emit FallingBackToSimpleEmbedding (emit (OllamaEmbeddingError msg) w)))"

definition createEmbedding ::
  "runtime \<Rightarrow> string \<Rightarrow> world \<Rightarrow> (error + double list option) \<times> world" where
  "createEmbedding rt text w0 =
     (let w = w0\<lparr>calls := calls w0 @ [EmbeddingCall text]\<rparr>;
          provider = getProvider (env rt)
      in if provider = ''openai'' then createOpenAIEmbedding (net rt) text w
         else if provider = ''ollama'' then createOllamaEmbedding (net rt) text w
         else if provider = ''groq'' \<or> provider = ''demo''
           then (Inr (Some (createSimpleEmbedding text)), w)
         else (Inr (Some (createSimpleEmbedding text)), w))"

definition generateOpenAICompletion ::
  "network \<Rightarrow> string \<Rightarrow> string \<Rightarrow> world \<Rightarrow> (error + string) \<times> world" where
  "generateOpenAICompletion n systemPrompt userPrompt w =
     (case openai_chat n (length (calls w)) systemPrompt userPrompt of
        Inr text \<Rightarrow> (Inr text, w)
      | Inl msg \<Rightarrow> (Inl (RequestFailed msg), emit (OpenAICompletionError msg) w))"

definition generateOllamaCompletion ::
  "network \<Rightarrow> string \<Rightarrow> string \<Rightarrow> world \<Rightarrow> (error + string) \<times> world" where
  "generateOllamaCompletion n systemPrompt userPrompt w =
     (case ollama_chat n (length (calls w)) systemPrompt userPrompt of
        Inr text \<Rightarrow> (Inr text, w)
      | Inl msg \<Rightarrow> (Inl OllamaNotRunning, emit (OllamaCompletionError msg) w))"

definition generateGroqCompletion ::
  "network \<Rightarrow> string \<Rightarrow> string \<Rightarrow> world \<Rightarrow> (error + string) \<times> world" where
  "generateGroqCompletion n systemPrompt userPrompt w =
     (case groq_chat n (length (calls w)) systemPrompt userPrompt of
        Inr text \<Rightarrow> (Inr text, w)
      | Inl msg \<Rightarrow> (Inl (RequestFailed msg), emit (GroqCompletionError msg) w))"

definition generateCompletion ::
  "runtime \<Rightarrow> string \<Rightarrow> string \<Rightarrow> world \<Rightarrow> (error + string) \<times> world" where
  "generateCompletion rt systemPrompt userPrompt w0 =
     (let w = w0\<lparr>calls := calls w0 @ [CompletionCall systemPrompt userPrompt]\<rparr>;
          provider = getProvider (env rt)
      in if provider = ''openai'' then generateOpenAICompletion (net rt) systemPrompt userPrompt w
         else if provider = ''ollama'' then generateOllamaCompletion (net rt) systemPrompt userPrompt w
         else if provider = ''groq'' then generateGroqCompletion (net rt) systemPrompt userPrompt w
         else if provider = ''demo'' then (Inr (generateDemoCompletion userPrompt), w)
         else (Inr (generateDemoCompletion userPrompt), w))"


section \<open>Project index: indexing and search\<close>

definition with_embedding :: "chunk \<Rightarrow> double list option \<Rightarrow> vector" where
  "with_embedding c e =
     \<lparr>path = path c, fileName = fileName c, language = language c, folder = folder c,
      content = content c, startLine = startLine c, endLine = endLine c,
      isSummary = isSummary c, embedding = e\<rparr>"

text \<open>The state of the loops of \<open>indexProject\<close>: \<open>vectors\<close>, \<open>processedChunks\<close>,
  \<open>errors\<close>, and the world.\<close>

type_synonym index_loop = "(vector list \<times> nat \<times> nat) \<times> world"

text \<open>The inner loop, over the chunks of one file, with its \<open>try\<close> and \<open>catch\<close>.\<close>

fun embed_chunks :: "runtime \<Rightarrow> chunk list \<Rightarrow> index_loop \<Rightarrow> index_loop" where
  "embed_chunks rt [] st = st"
| "embed_chunks rt (chunk # chunks) ((vecs, processedChunks, errors), w) =
     (case createEmbedding rt (content chunk) w of
        (Inr emb, w') \<Rightarrow>
          (let vecs = vecs @ [with_embedding chunk emb];
               processedChunks = processedChunks + 1;
               w' = (if processedChunks mod 10 = 0
                     then emit (ProcessedChunks processedChunks) w' else w')
           in embed_chunks rt chunks ((vecs, processedChunks, errors), w'))
      | (Inl error, w') \<Rightarrow>
          (let errors = errors + 1;
               w' = (if errors \<le> 3
                     then emit (CouldNotEmbedChunk (path chunk) (message error)) w' else w')
           in embed_chunks rt chunks ((vecs, processedChunks, errors), w')))"

text \<open>The outer loop, over the files.\<close>

fun index_files :: "runtime \<Rightarrow> parsed_file list \<Rightarrow> index_loop \<Rightarrow> index_loop" where
  "index_files rt [] st = st"
| "index_files rt (file # fs) st = index_files rt fs (embed_chunks rt (chunkContent file) st)"

text \<open>\<open>indexProject\<close>; \<open>now\<close> is the value of \<open>new Date().toISOString()\<close>.\<close>

definition indexProject ::
  "runtime \<Rightarrow> string \<Rightarrow> parsed_file list \<Rightarrow> string \<Rightarrow> world \<Rightarrow> (error + index_stats) \<times> world" where
  "indexProject rt projectId fs now w0 =
     (let w = emit (IndexingProject projectId (length fs)) w0;
          ((vecs, processedChunks, errors), w) = index_files rt fs (([], 0, 0), w);
          w = (if errors > 3 then emit (MoreEmbeddingErrors (errors - 3)) w else w);
          st = \<lparr>vectors = vecs, files = fs, indexedAt = now,
                stats = \<lparr>totalFiles = length fs, totalChunks = length vecs,
                          languages = uniq (map language fs)\<rparr>\<rparr>;
          w = w\<lparr>vectorStores := (vectorStores w)(projectId \<mapsto> st)\<rparr>;
          w = emit (IndexedChunks (length vecs) projectId) w
      in (case vectorStores w projectId of
            Some s \<Rightarrow> (Inr (stats s), w)
          | None \<Rightarrow> (Inl (TypeError ''Cannot read properties of undefined (reading 'stats')''), w)))"

text \<open>The loop of \<open>cosineSimilarity\<close>: \<open>dotProduct\<close>, \<open>normA\<close>, \<open>normB\<close>.\<close>

definition cosine_sums :: "double list \<Rightarrow> double list \<Rightarrow> double \<times> double \<times> double" where
  "cosine_sums vecA vecB =
     foldl (\<lambda>(dotProduct, normA, normB) i.
              (fadd dotProduct (fmul (vecA ! i) (vecB ! i)),
               fadd normA (fmul (vecA ! i) (vecA ! i)),
               fadd normB (fmul (vecB ! i) (vecB ! i))))
       (Fin 0, Fin 0, Fin 0) [0 ..< length vecA]"

definition cosineSimilarity :: "double list option \<Rightarrow> double list option \<Rightarrow> double" where
  "cosineSimilarity a b =
     (case (a, b) of
        (Some vecA, Some vecB) \<Rightarrow>
          (if length vecA \<noteq> length vecB then Fin 0
           else (let (dotProduct, normA, normB) = cosine_sums vecA vecB;
                     denominator = fmul (fsqrt normA) (fsqrt normB)
                 in if fgt denominator (Fin 0) then fdiv dotProduct denominator else Fin 0))
      | _ \<Rightarrow> Fin 0)"

text \<open>The options of a search. A property that is absent, \<open>undefined\<close> or \<open>null\<close> is
  \<open>None\<close>; \<open>limit\<close> is an integer when present.\<close>

record search_options =
  opt_language :: "string option"
  opt_folder :: "string option"
  opt_limit :: "int option"

definition with_similarity :: "vector \<Rightarrow> double \<Rightarrow> scored" where
  "with_similarity v s =
     \<lparr>path = path v, fileName = fileName v, language = language v, folder = folder v,
      content = content v, startLine = startLine v, endLine = endLine v,
      isSummary = isSummary v, embedding = embedding v, similarity = s\<rparr>"

text \<open>\<open>({ embedding, ...rest }) => rest\<close>\<close>

definition without_embedding :: "scored \<Rightarrow> scored" where
  "without_embedding r = r\<lparr>embedding := None\<rparr>"

text \<open>\<open>startsWith\<close>\<close>

definition startsWith :: "string \<Rightarrow> string \<Rightarrow> bool" where
  "startsWith s p = (take (length p) s = p)"

text \<open>\<open>options.limit || 10\<close>: \<open>undefined\<close>, \<open>null\<close> and \<open>0\<close> are falsy.\<close>

definition limit_or_default :: "int option \<Rightarrow> int" where
  "limit_or_default l = (case l of None \<Rightarrow> 10 | Some n \<Rightarrow> (if n = 0 then 10 else n))"

text \<open>The candidates of a search before sorting: every stored vector with its similarity
  to the query, then the two filters, in the order of \<open>store.vectors\<close>.\<close>

definition candidates :: "store \<Rightarrow> double list option \<Rightarrow> search_options \<Rightarrow> scored list" where
  "candidates st queryEmbedding options =
     (let results = map (\<lambda>chunk. with_similarity chunk (cosineSimilarity queryEmbedding (embedding chunk)))
                      (vectors st);
          results = (case opt_language options of
                       None \<Rightarrow> results
                     | Some l \<Rightarrow> (if l = [] then results
                                 else filter (\<lambda>r. language r = l) results));
          results = (case opt_folder options of
                       None \<Rightarrow> results
                     | Some f \<Rightarrow> (if f = [] then results
                                 else filter (\<lambda>r. startsWith (folder r) f) results))
      in results)"

text \<open>
  \<open>results.sort((a, b) => b.similarity - a.similarity)\<close>. When no similarity is NaN, the
  difference \<open>b.similarity - a.similarity\<close> is negative if \<open>a\<close> is the greater, positive
  if \<open>b\<close> is, and zero, or NaN for two equal infinities, which \<open>sort\<close> reads as zero, if
  they are equal (the difference of two different doubles is never rounded to zero); the
  comparator is then consistent, and since the sort of an array is stable the result is
  the stable sort by descending similarity. When a similarity is NaN the comparator
  answers NaN, read as zero, for every pair with it, it is not consistent, and the order
  of the result is left to the JavaScript engine: some permutation of the array, chosen
  from the similarities (all that the comparator reads). The runtime carries that choice
  as \<open>inconsistent_sort\<close>, from the similarities to the order of the indices; a value of
  it that is not a permutation of the indices is not one of an engine and leaves the
  array as it is.
\<close>

definition sort_by_similarity :: "runtime \<Rightarrow> scored list \<Rightarrow> scored list" where
  "sort_by_similarity rt results =
     (if list_all (\<lambda>r. similarity r \<noteq> NaN) results
      then sort_key (\<lambda>r. descending_key (similarity r)) results
      else (let order = inconsistent_sort rt (map similarity results)
            in if mset order = mset [0 ..< length results]
               then map (\<lambda>i. results ! i) order else results))"

definition searchCode ::
  "runtime \<Rightarrow> string \<Rightarrow> string \<Rightarrow> search_options \<Rightarrow> world \<Rightarrow> (error + scored list) \<times> world" where
  "searchCode rt projectId query options w =
     (case vectorStores w projectId of
        None \<Rightarrow> (Inl (ProjectNotFound projectId), w)
      | Some st \<Rightarrow>
          (case createEmbedding rt query w of
             (Inl err, w') \<Rightarrow> (Inl err, w')
           | (Inr queryEmbedding, w') \<Rightarrow>
               (let results = sort_by_similarity rt (candidates st queryEmbedding options)
                in (Inr (map without_embedding
                           (slice0 results (limit_or_default (opt_limit options)))), w'))))"

definition getProjectStats :: "world \<Rightarrow> string \<Rightarrow> index_stats option" where
  "getProjectStats w projectId = map_option stats (vectorStores w projectId)"

definition getProjectFiles :: "world \<Rightarrow> string \<Rightarrow> parsed_file list option" where
  "getProjectFiles w projectId = map_option files (vectorStores w projectId)"

definition projectExists :: "world \<Rightarrow> string \<Rightarrow> bool" where
  "projectExists w projectId = (vectorStores w projectId \<noteq> None)"

definition deleteProject :: "string \<Rightarrow> world \<Rightarrow> bool \<times> world" where
  "deleteProject projectId w =
     (vectorStores w projectId \<noteq> None, w\<lparr>vectorStores := (vectorStores w)(projectId := None)\<rparr>)"


section \<open>Retrieval and answering service (qa.service.js)\<close>

record reference =
  ref_file :: string
  ref_fileName :: string
  ref_startLine :: nat
  ref_endLine :: nat
  ref_language :: string
  ref_folder :: string
  ref_similarity :: double
  ref_preview :: string
  ref_isSummary :: bool

text \<open>The object returned by \<open>answerQuestion\<close>. The properties \<open>relevantFiles\<close> and
  \<open>provider\<close> are \<open>None\<close> when reading them gives \<open>undefined\<close>.\<close>

record qa_result =
  answer :: string
  references :: "reference list"
  confidence :: string
  relevantFiles :: "string list option"
  provider :: "string option"

definition buildContext :: "scored list \<Rightarrow> string" where
  "buildContext chunks =
     foldl (\<lambda>context chunk.
              context @ [nl] @ ''--- File: '' @ path chunk @ '' (lines '' @ show_nat (startLine chunk)
              @ ''-'' @ show_nat (endLine chunk) @ '') ---'' @ [nl] @ content chunk @ [nl])
       [] chunks"

definition answer_systemPrompt :: string where
  "answer_systemPrompt =
     ''You are a helpful code assistant analyzing a codebase. Your job is to answer questions about the code accurately and helpfully.''
     @ [nl, nl] @ ''Guidelines:'' @ [nl]
     @ ''- Always reference specific files and line numbers when discussing code'' @ [nl]
     @ ''- Explain code in clear, understandable terms'' @ [nl]
     @ ''- If you're not sure about something, say so'' @ [nl]
     @ ''- Provide code examples when helpful'' @ [nl]
     @ ''- Focus on the most relevant parts of the code for the question'' @ [nl]
     @ ''- If asked about specific functions or features, explain what they do and how they work''"

definition answer_userPrompt :: "string \<Rightarrow> string \<Rightarrow> string" where
  "answer_userPrompt question context =
     ''Based on the following code context from the codebase, please answer this question:''
     @ [nl, nl] @ ''Question: '' @ question @ [nl, nl] @ ''Code Context:'' @ [nl] @ context @ [nl, nl]
     @ ''Please provide a clear, detailed answer with specific file and line references where applicable.''"

definition generateAnswer ::
  "runtime \<Rightarrow> string \<Rightarrow> string \<Rightarrow> world \<Rightarrow> (error + string) \<times> world" where
  "generateAnswer rt question context w =
     (case generateCompletion rt answer_systemPrompt (answer_userPrompt question context) w of
        (Inr text, w') \<Rightarrow> (Inr text, w')
      | (Inl err, w') \<Rightarrow>
          (Inl (FailedToGenerateAnswer (message err)), emit (ErrorGeneratingAnswer (message err)) w'))"

definition formatReferences :: "scored list \<Rightarrow> reference list" where
  "formatReferences chunks =
     map (\<lambda>chunk.
            \<lparr>ref_file = path chunk, ref_fileName = fileName chunk,
             ref_startLine = startLine chunk, ref_endLine = endLine chunk,
             ref_language = language chunk, ref_folder = folder chunk,
             ref_similarity = js_round (fmul (similarity chunk) (Fin 100)),
             ref_preview = join [nl] (take 5 (split_on nl (content chunk))),
             ref_isSummary = (isSummary chunk \<or> False)\<rparr>)
       chunks"

definition no_results_answer :: string where
  "no_results_answer =
     ''I couldn't find any relevant code in the codebase to answer your question. Please make sure the codebase is properly indexed.''"

text \<open>The literals \<open>0.8\<close> and \<open>0.6\<close> are the doubles nearest to these fractions.\<close>

definition confidence_of :: "double \<Rightarrow> string" where
  "confidence_of s =
     (if fgt s (round64 (8 / 10)) then ''high''
      else if fgt s (round64 (6 / 10)) then ''medium'' else ''low'')"

definition answerQuestion ::
  "runtime \<Rightarrow> string \<Rightarrow> string \<Rightarrow> search_options \<Rightarrow> world \<Rightarrow> (error + qa_result) \<times> world" where
  "answerQuestion rt projectId question options w0 =
     (let w = emit (ProcessingQuestion projectId question) w0
      in case searchCode rt projectId question (options\<lparr>opt_limit := Some 8\<rparr>) w of
           (Inl err, w') \<Rightarrow> (Inl err, w')
         | (Inr relevantChunks, w') \<Rightarrow>
             (case relevantChunks of
                [] \<Rightarrow>
                  (Inr \<lparr>answer = no_results_answer, references = [], confidence = ''low'',
                        relevantFiles = None, provider = None\<rparr>, w')
              | first # _ \<Rightarrow>
                  (let context = buildContext relevantChunks
                   in case generateAnswer rt question context w' of
                        (Inl err, w'') \<Rightarrow> (Inl err, w'')
                      | (Inr text, w'') \<Rightarrow>
                          (Inr \<lparr>answer = text,
                                references = formatReferences relevantChunks,
                                confidence = confidence_of (similarity first),
                                relevantFiles = Some (uniq (map path relevantChunks)),
                                provider = getProviderConfig_name (env rt)\<rparr>, w''))))"

record file_info =
  info_path :: string
  info_fileName :: string
  info_language :: string
  info_lineCount :: nat
  info_structures :: "code_structure list"

record explain_result =
  explanation :: string
  explained_file :: file_info
  explain_provider :: "string option"

definition explain_systemPrompt :: string where
  "explain_systemPrompt =
     ''You are a code documentation expert. Analyze the given code file and provide a clear, structured explanation.''"

definition explain_userPrompt :: "parsed_file \<Rightarrow> string" where
  "explain_userPrompt file =
     ''Please analyze and explain this '' @ language file @ '' file:'' @ [nl, nl]
     @ ''File: '' @ path file @ [nl, nl]
     @ ''```'' @ language file @ [nl] @ content file @ [nl] @ ''```'' @ [nl, nl]
     @ ''Provide:'' @ [nl]
     @ ''1. A brief overview of what this file does'' @ [nl]
     @ ''2. Key functions/classes and their purposes'' @ [nl]
     @ ''3. How this file likely fits into the larger application'' @ [nl]
     @ ''4. Any notable patterns or best practices used''"

definition explainFile ::
  "runtime \<Rightarrow> string \<Rightarrow> string \<Rightarrow> world \<Rightarrow> (error + explain_result) \<times> world" where
  "explainFile rt projectId filePath w =
     (let fs = getProjectFiles w projectId;
          file = (case fs of None \<Rightarrow> None | Some l \<Rightarrow> find (\<lambda>f. path f = filePath) l)
      in case file of
           None \<Rightarrow> (Inl (FileNotFound filePath), w)
         | Some f \<Rightarrow>
             (case generateCompletion rt explain_systemPrompt (explain_userPrompt f) w of
                (Inr text, w') \<Rightarrow>
                  (Inr \<lparr>explanation = text,
                        explained_file = \<lparr>info_path = path f, info_fileName = fileName f,
                                           info_language = language f,
                                           info_lineCount = lineCount f,
                                           info_structures = structures f\<rparr>,
                        explain_provider = getProviderConfig_name (env rt)\<rparr>, w')
              | (Inl err, w') \<Rightarrow> (Inl err, emit (ErrorExplainingFile (message err)) w')))"



section \<open>Notions used in the statements\<close>

text \<open>The real number that a finite double denotes, and the Euclidean norm of a vector of
  finite doubles, computed exactly.\<close>

fun value_of :: "double \<Rightarrow> real" where
  "value_of (Fin x) = x"
| "value_of PInf = 0"
| "value_of NInf = 0"
| "value_of NaN = 0"

definition l2_norm :: "double list \<Rightarrow> real" where
  "l2_norm v = sqrt (\<Sum>d\<leftarrow>v. (value_of d)\<^sup>2)"

text \<open>A finite double that is not negative; an embedding all of whose components are such
  (\<open>undefined\<close> counts as one: its similarity to anything is 0).\<close>

fun finite_nonneg :: "double \<Rightarrow> bool" where
  "finite_nonneg (Fin x) = (0 \<le> x)"
| "finite_nonneg PInf = False"
| "finite_nonneg NInf = False"
| "finite_nonneg NaN = False"

text \<open>A double that is not negative and not NaN: a finite one as above, or \<open>Infinity\<close>.\<close>

fun nonneg_or_inf :: "double \<Rightarrow> bool" where
  "nonneg_or_inf (Fin x) = (0 \<le> x)"
| "nonneg_or_inf PInf = True"
| "nonneg_or_inf NInf = False"
| "nonneg_or_inf NaN = False"

definition nonneg_embedding :: "double list option \<Rightarrow> bool" where
  "nonneg_embedding e = (case e of None \<Rightarrow> True | Some v \<Rightarrow> list_all finite_nonneg v)"

text \<open>A finite double that is zero or of a magnitude between \<open>2 ^ - 200\<close> and \<open>2 ^ 200\<close>:
  the products, sums of products and quotients that cosine similarity computes from fewer
  than \<open>2 ^ 32\<close> such numbers neither overflow nor underflow. A vector of fewer than
  \<open>2 ^ 32\<close> such components (as many as an array can have), and an embedding that is such
  a vector (\<open>undefined\<close> counts as one).\<close>

fun moderate :: "double \<Rightarrow> bool" where
  "moderate (Fin x) = (x = 0 \<or> (1 / 2 ^ 200 \<le> \<bar>x\<bar> \<and> \<bar>x\<bar> \<le> 2 ^ 200))"
| "moderate PInf = False"
| "moderate NInf = False"
| "moderate NaN = False"

definition moderate_vector :: "double list \<Rightarrow> bool" where
  "moderate_vector v = (length v < 2 ^ 32 \<and> list_all moderate v)"

definition moderate_embedding :: "double list option \<Rightarrow> bool" where
  "moderate_embedding e = (case e of None \<Rightarrow> True | Some v \<Rightarrow> moderate_vector v)"

text \<open>\<open>y\<close> is \<open>x\<close> up to \<open>k\<close> roundings: both are non-negative and each is at least the
  other times \<open>(1 - 2 ^ - 53) ^ k\<close>.\<close>

definition rounding_factor :: real where
  "rounding_factor = 1 - 1 / 2 ^ 53"

definition near :: "nat \<Rightarrow> real \<Rightarrow> real \<Rightarrow> bool" where
  "near k x y =
     (0 \<le> x \<and> 0 \<le> y \<and> x * rounding_factor ^ k \<le> y \<and> y * rounding_factor ^ k \<le> x)"

text \<open>A non-negative exact result that a rounding neither overflows nor brings into the
  subnormal range, with a margin: zero, or between \<open>2 ^ - 1000\<close> and \<open>2 ^ 1000\<close>.\<close>

definition in_range :: "real \<Rightarrow> bool" where
  "in_range x = (x = 0 \<or> (1 / 2 ^ 1000 \<le> x \<and> x \<le> 2 ^ 1000))"

text \<open>The weight \<open>1 / (1 + idx * 0.1)\<close> of the token at position \<open>idx\<close>, on doubles.\<close>

definition position_weight :: "nat \<Rightarrow> double" where
  "position_weight idx =
     fdiv (Fin 1) (fadd (Fin 1) (fmul (double_of_nat idx) (round64 (1 / 10))))"

text \<open>\<open>a \<ge> b\<close> on doubles: false when an operand is NaN.\<close>

definition fge :: "double \<Rightarrow> double \<Rightarrow> bool" where
  "fge a b = (a \<noteq> NaN \<and> b \<noteq> NaN \<and> \<not> fless a b)"

text \<open>What \<open>createEmbedding(text)\<close> returns or throws when it is the \<open>k\<close>-th provider
  call: the result of \<open>createEmbedding\<close> without its effects.\<close>

definition embedding_outcome :: "runtime \<Rightarrow> nat \<Rightarrow> string \<Rightarrow> error + double list option" where
  "embedding_outcome rt k text =
     (let provider = getProvider (env rt)
      in if provider = ''openai'' then
           (case openai_embeddings (net rt) k (take 8000 text) of
              Inr e \<Rightarrow> Inr e
            | Inl msg \<Rightarrow> Inl (RequestFailed msg))
         else if provider = ''ollama'' then
           (case ollama_embeddings (net rt) k (take 8000 text) of
              Inr e \<Rightarrow> Inr e
            | Inl msg \<Rightarrow> Inr (Some (createSimpleEmbedding text)))
         else Inr (Some (createSimpleEmbedding text)))"

text \<open>The vectors expected in the index for a list of chunks embedded one after the other,
  once each, after \<open>n\<close> earlier provider calls: a chunk whose call fails contributes nothing.\<close>

fun embedded :: "runtime \<Rightarrow> nat \<Rightarrow> chunk list \<Rightarrow> vector list" where
  "embedded rt n [] = []"
| "embedded rt n (c # cs) =
     (case embedding_outcome rt (Suc n) (content c) of
        Inr e \<Rightarrow> [with_embedding c e]
      | Inl _ \<Rightarrow> [])
     @ embedded rt (Suc n) cs"

text \<open>The number of those chunks whose call fails.\<close>

fun failures :: "runtime \<Rightarrow> nat \<Rightarrow> chunk list \<Rightarrow> nat" where
  "failures rt n [] = 0"
| "failures rt n (c # cs) =
     (case embedding_outcome rt (Suc n) (content c) of Inr _ \<Rightarrow> 0 | Inl _ \<Rightarrow> 1)
     + failures rt (Suc n) cs"

text \<open>Kinds of console lines: the warning of \<open>indexProject\<close> for one chunk, its closing
  line for the remaining errors, and the error line of the OpenAI embedding call.\<close>

fun is_chunk_warning :: "console_line \<Rightarrow> bool" where
  "is_chunk_warning (CouldNotEmbedChunk _ _) = True"
| "is_chunk_warning _ = False"

fun is_summary_warning :: "console_line \<Rightarrow> bool" where
  "is_summary_warning (MoreEmbeddingErrors _) = True"
| "is_summary_warning _ = False"

fun is_openai_error :: "console_line \<Rightarrow> bool" where
  "is_openai_error (OpenAIEmbeddingError _) = True"
| "is_openai_error _ = False"



section \<open>Example inputs\<close>

text \<open>A file of \<open>n\<close> lines, each the single letter \<open>x\<close>, and a file whose content is one space.\<close>

definition lines_file :: "nat \<Rightarrow> parsed_file" where
  "lines_file n =
     \<lparr>path = ''src/app.js'', fileName = ''app.js'', language = ''javascript'', folder = ''src'',
      content = join [nl] (replicate n ''x''), lineCount = n, structures = []\<rparr>"

definition blank_file :: parsed_file where
  "blank_file =
     \<lparr>path = ''src/blank.js'', fileName = ''blank.js'', language = ''javascript'', folder = ''src'',
      content = '' '', lineCount = 1, structures = []\<rparr>"

text \<open>A network on which every request fails, and the runtime that selects a provider by
  its key on that network (its engine leaves an array that it cannot order as it is).\<close>

definition failing_net :: network where
  "failing_net =
     \<lparr>openai_embeddings = (\<lambda>n text. Inl ''connect ECONNREFUSED''),
      ollama_embeddings = (\<lambda>n text. Inl ''fetch failed''),
      openai_chat = (\<lambda>n systemPrompt userPrompt. Inl ''connect ECONNREFUSED''),
      ollama_chat = (\<lambda>n systemPrompt userPrompt. Inl ''fetch failed''),
      groq_chat = (\<lambda>n systemPrompt userPrompt. Inl ''connect ECONNREFUSED'')\<rparr>"

definition runtime_for :: "string \<Rightarrow> runtime" where
  "runtime_for key =
     \<lparr>env = [''AI_PROVIDER'' \<mapsto> key], net = failing_net,
      inconsistent_sort = (\<lambda>similarities. [0 ..< length similarities])\<rparr>"

definition empty_world :: world where
  "empty_world = \<lparr>vectorStores = Map.empty, console = [], calls = []\<rparr>"

definition no_options :: search_options where
  "no_options = \<lparr>opt_language = None, opt_folder = None, opt_limit = None\<rparr>"

text \<open>The world after indexing a project without files.\<close>

definition empty_project_world :: "string \<Rightarrow> world" where
  "empty_project_world key =
     snd (indexProject (runtime_for key) ''p1'' [] ''2024-01-01T00:00:00.000Z'' empty_world)"

text \<open>An OpenAI runtime whose embedding service answers the first two calls with the vector
  \<open>[1]\<close> and every later call with \<open>[-1]\<close>; the world after indexing a file of two lines
  with it; and the two vectors that this world stores.\<close>

definition flip_runtime :: runtime where
  "flip_runtime =
     \<lparr>env = [''AI_PROVIDER'' \<mapsto> ''openai''],
      net = failing_net\<lparr>openai_embeddings :=
              (\<lambda>n text. Inr (Some [if n \<le> 2 then Fin 1 else Fin (- 1)]))\<rparr>,
      inconsistent_sort = (\<lambda>similarities. [0 ..< length similarities])\<rparr>"

definition flip_world :: world where
  "flip_world =
     snd (indexProject flip_runtime ''p1'' [lines_file 2] ''2024-01-01T00:00:00.000Z'' empty_world)"

definition flip_vectors :: "vector list" where
  "flip_vectors =
     [with_embedding (summary_chunk (lines_file 2) [''x'', ''x'']) (Some [Fin 1]),
      with_embedding
        \<lparr>path = ''src/app.js'', fileName = ''app.js'', language = ''javascript'', folder = ''src'',
         content = [CHR ''x'', nl, CHR ''x''], startLine = 1, endLine = 2, isSummary = False\<rparr>
        (Some [Fin 1])]"

text \<open>The world after indexing the same file in demo mode, with the offline embedding.\<close>

definition demo_world :: world where
  "demo_world =
     snd (indexProject (runtime_for ''demo'') ''p1'' [lines_file 2] ''2024-01-01T00:00:00.000Z'' empty_world)"

definition demo_vectors :: "vector list" where
  "demo_vectors =
     map (\<lambda>c. with_embedding c (Some (createSimpleEmbedding (content c)))) (chunkContent (lines_file 2))"


section \<open>Properties of the arithmetic of doubles\<close>

lemma pow2_pos [simp]: "0 < pow2 e"
  by (simp add: pow2_def)

lemma pow2_nz [simp]: "pow2 e \<noteq> 0"
  using pow2_pos [of e] by linarith

lemma pow2_nonneg [simp]: "0 \<le> pow2 e"
  using pow2_pos [of e] by linarith

lemma pow2_not_le0 [simp]: "\<not> pow2 e \<le> 0"
  using pow2_pos [of e] by linarith

lemma pow2_add: "pow2 (a + b) = pow2 a * pow2 b"
  by (simp add: pow2_def powr_add)

lemma pow2_mono: "a \<le> b \<Longrightarrow> pow2 a \<le> pow2 b"
  by (simp add: pow2_def)

lemma pow2_strict_mono: "a < b \<Longrightarrow> pow2 a < pow2 b"
  by (simp add: pow2_def)

lemma pow2_nat: "pow2 (int n) = 2 ^ n"
  by (simp add: pow2_def powr_realpow)

lemma pow2_0 [simp]: "pow2 0 = 1"
  by (simp add: pow2_def)

lemma pow2_diff: "pow2 (a - b) = pow2 a / pow2 b"
  by (simp add: pow2_def powr_diff)

lemma round_even_err: "\<bar>real_of_int (round_even q) - q\<bar> \<le> 1 / 2"
  unfolding round_even_def Let_def by (auto simp: abs_if) linarith+

lemma round_even_of_int [simp]: "round_even (of_int k) = k"
  by (simp add: round_even_def)

lemma binade_bounds:
  assumes "x \<noteq> 0"
  shows "pow2 \<lfloor>log 2 \<bar>x\<bar>\<rfloor> \<le> \<bar>x\<bar>" and "\<bar>x\<bar> < pow2 (\<lfloor>log 2 \<bar>x\<bar>\<rfloor> + 1)"
  using assms floor_log_eq_powr_iff [of "\<bar>x\<bar>" 2 "\<lfloor>log 2 \<bar>x\<bar>\<rfloor>"]
  by (simp_all add: pow2_def)

lemma binade_unique:
  assumes "pow2 e \<le> \<bar>x\<bar>" "\<bar>x\<bar> < pow2 (e + 1)"
  shows "\<lfloor>log 2 \<bar>x\<bar>\<rfloor> = e"
proof -
  have p: "0 < \<bar>x\<bar>" using assms(1) pow2_pos [of e] by linarith
  show ?thesis
    using assms p floor_log_eq_powr_iff [of "\<bar>x\<bar>" 2 e] by (simp add: pow2_def)
qed

lemma round64_rnd:
  "round64 x = (if x = 0 then Fin 0
                else if pow2 1024 \<le> \<bar>rnd x\<bar> then (if 0 < x then PInf else NInf) else Fin (rnd x))"
  by (simp add: round64_def)

lemma rnd_err:
  "\<bar>rnd x - x\<bar> \<le> pow2 (max \<lfloor>log 2 \<bar>x\<bar>\<rfloor> (- 1022) - 53)"
proof -
  define e where "e = max \<lfloor>log 2 \<bar>x\<bar>\<rfloor> (- 1022)"
  define ulp where "ulp = pow2 (e - 52)"
  have u: "0 < ulp" by (simp add: ulp_def)
  have "rnd x - x = (of_int (round_even (x / ulp)) - x / ulp) * ulp"
    using u by (simp add: rnd_def e_def ulp_def Let_def field_simps)
  then have "\<bar>rnd x - x\<bar> = \<bar>of_int (round_even (x / ulp)) - x / ulp\<bar> * ulp"
    using u by (simp add: abs_mult)
  also have "\<dots> \<le> (1 / 2) * ulp"
    using round_even_err [of "x / ulp"] u by (intro mult_right_mono) auto
  also have "\<dots> = pow2 (e - 53)"
    by (simp add: ulp_def pow2_diff pow2_nat [of 52, simplified] pow2_nat [of 53, simplified])
  finally show ?thesis by (simp add: e_def)
qed

lemma pow2_numeral: "pow2 (numeral n) = 2 ^ numeral n"
  using pow2_nat [of "numeral n"] by simp

lemma pow2_neg_numeral: "pow2 (- numeral n) = 1 / 2 ^ numeral n"
  by (simp add: pow2_def powr_neg_numeral)

lemma round64_rel:
  assumes lo: "pow2 (- 1022) \<le> \<bar>x\<bar>" and hi: "\<bar>x\<bar> \<le> pow2 1023"
  shows "\<exists>y. round64 x = Fin y \<and> \<bar>y - x\<bar> \<le> \<bar>x\<bar> * pow2 (- 53)"
proof -
  have "0 < \<bar>x\<bar>" using lo pow2_pos [of "- 1022"] by linarith
  then have x0: "x \<noteq> 0" by simp
  define b where "b = \<lfloor>log 2 \<bar>x\<bar>\<rfloor>"
  have b1: "pow2 b \<le> \<bar>x\<bar>" and b2: "\<bar>x\<bar> < pow2 (b + 1)"
    using binade_bounds [OF x0] by (simp_all add: b_def)
  have "pow2 (- 1022) < pow2 (b + 1)" using lo b2 by linarith
  then have "- 1022 < b + 1" unfolding pow2_def by simp
  then have m: "max b (- 1022) = b" by simp
  have "\<bar>rnd x - x\<bar> \<le> pow2 (b - 53)" using rnd_err [of x] by (simp add: b_def [symmetric] m)
  also have "\<dots> = pow2 b * pow2 (- 53)" using pow2_add [of b "- 53"] by simp
  also have "\<dots> \<le> \<bar>x\<bar> * pow2 (- 53)" using b1 by (intro mult_right_mono) auto
  finally have e: "\<bar>rnd x - x\<bar> \<le> \<bar>x\<bar> * pow2 (- 53)" .
  have "pow2 (- 53) \<le> 1 / 2" by (simp add: pow2_neg_numeral)
  then have "\<bar>x\<bar> * pow2 (- 53) \<le> \<bar>x\<bar> * (1 / 2)" by (intro mult_left_mono) auto
  then have "\<bar>rnd x\<bar> \<le> (3 / 2) * \<bar>x\<bar>" using e by linarith
  also have "\<dots> \<le> (3 / 2) * pow2 1023" using hi by simp
  also have "\<dots> < 2 * pow2 1023" by simp
  also have "\<dots> = pow2 1024" using pow2_add [of 1 1023] by (simp add: pow2_def)
  finally have "\<bar>rnd x\<bar> < pow2 1024" .
  then show ?thesis using e x0 by (simp add: round64_rnd)
qed


lemma round_even_ge: "of_int k \<le> q \<Longrightarrow> k \<le> round_even q"
  unfolding round_even_def Let_def by (auto simp: le_floor_iff) linarith+

lemma round_even_le: "q \<le> of_int k \<Longrightarrow> round_even q \<le> k"
  unfolding round_even_def Let_def by (auto simp: floor_le_iff)

lemma round_even_small: "\<bar>q\<bar> < 1 / 2 \<Longrightarrow> round_even q = 0"
proof -
  assume a: "\<bar>q\<bar> < 1 / 2"
  have "\<bar>real_of_int (round_even q)\<bar> < 1" using round_even_err [of q] a by linarith
  then show ?thesis by linarith
qed

lemma round_even_0 [simp]: "round_even 0 = 0"
  using round_even_of_int [of 0] by simp

lemma rnd_0 [simp]: "rnd 0 = 0"
  by (simp add: rnd_def)

lemma round64_0 [simp]: "round64 0 = Fin 0"
  by (simp add: round64_def)

lemma rnd_nonneg: "0 \<le> x \<Longrightarrow> 0 \<le> rnd x"
proof -
  assume x: "0 \<le> x"
  define ulp where "ulp = pow2 (max \<lfloor>log 2 \<bar>x\<bar>\<rfloor> (- 1022) - 52)"
  have "real_of_int 0 \<le> x / ulp" using x by (simp add: ulp_def)
  then have "0 \<le> round_even (x / ulp)" by (rule round_even_ge)
  then show ?thesis by (simp add: rnd_def ulp_def Let_def)
qed


lemma rnd_ge_pow2:
  assumes a: "- 1022 \<le> a" and x: "pow2 a \<le> x"
  shows "pow2 a \<le> rnd x"
proof -
  have xp: "0 < x" using x pow2_pos [of a] by linarith
  then have x0: "x \<noteq> 0" by simp
  define b where "b = \<lfloor>log 2 \<bar>x\<bar>\<rfloor>"
  have b1: "pow2 b \<le> x" and b2: "x < pow2 (b + 1)"
    using binade_bounds [OF x0] xp by (simp_all add: b_def)
  have "pow2 a < pow2 (b + 1)" using x b2 by linarith
  then have ab: "a \<le> b" unfolding pow2_def by simp
  then have m: "max b (- 1022) = b" using a by simp
  define ulp where "ulp = pow2 (b - 52)"
  have u: "0 < ulp" by (simp add: ulp_def)
  have "pow2 b / ulp = 2 ^ 52" by (simp add: ulp_def pow2_diff pow2_numeral)
  then have "real_of_int (2 ^ 52) = pow2 b / ulp" by simp
  also have "\<dots> \<le> x / ulp" using b1 u by (simp add: divide_right_mono)
  finally have "2 ^ 52 \<le> round_even (x / ulp)" by (rule round_even_ge)
  then have "real_of_int (2 ^ 52) \<le> real_of_int (round_even (x / ulp))" by linarith
  then have "real_of_int (2 ^ 52) * ulp \<le> real_of_int (round_even (x / ulp)) * ulp"
    using u by (simp add: mult_right_mono)
  moreover have "real_of_int (2 ^ 52) * ulp = pow2 b"
    by (simp add: ulp_def pow2_diff pow2_numeral)
  moreover have "rnd x = real_of_int (round_even (x / ulp)) * ulp"
    unfolding rnd_def Let_def b_def [symmetric] m ulp_def by simp
  ultimately have "pow2 b \<le> rnd x" by simp
  then show ?thesis using pow2_mono [OF ab] by linarith
qed

lemma round64_overflow: "pow2 1024 \<le> x \<Longrightarrow> round64 x = PInf"
proof -
  assume x: "pow2 1024 \<le> x"
  have xp: "0 < x" using x pow2_pos [of 1024] by linarith
  have "pow2 1024 \<le> rnd x" using rnd_ge_pow2 [of 1024 x] x by simp
  then have "pow2 1024 \<le> \<bar>rnd x\<bar>" by linarith
  then show ?thesis using xp by (simp add: round64_rnd)
qed

lemma rnd_underflow:
  assumes "\<bar>x\<bar> < pow2 (- 1075)"
  shows "rnd x = 0"
proof (cases "x = 0")
  case True then show ?thesis by simp
next
  case False
  define b where "b = \<lfloor>log 2 \<bar>x\<bar>\<rfloor>"
  have b1: "pow2 b \<le> \<bar>x\<bar>" using binade_bounds [OF False] by (simp add: b_def)
  then have "pow2 b < pow2 (- 1075)" using assms by linarith
  then have "b < - 1075" unfolding pow2_def by simp
  then have m: "max b (- 1022) = - 1022" by simp
  have "\<bar>x\<bar> / pow2 (- 1074) < pow2 (- 1075) / pow2 (- 1074)"
    using assms by (simp add: divide_strict_right_mono)
  also have "pow2 (- 1075) / pow2 (- 1074) = 1 / 2"
    using pow2_diff [of "- 1075" "- 1074"] by (simp add: pow2_def)
  finally have "\<bar>x / pow2 (- 1074)\<bar> < 1 / 2" by (simp add: abs_divide)
  then have "round_even (x / pow2 (- 1074)) = 0" by (rule round_even_small)
  then show ?thesis by (simp add: rnd_def Let_def b_def [symmetric] m)
qed

lemma round64_underflow: "\<bar>x\<bar> < pow2 (- 1075) \<Longrightarrow> round64 x = Fin 0"
  using rnd_underflow [of x] by (simp add: round64_rnd)

lemma rnd_exact:
  assumes p: "- 1074 \<le> p" and m: "\<bar>m\<bar> \<le> 2 ^ 53"
  shows "rnd (of_int m * pow2 p) = of_int m * pow2 p"
proof (cases "m = 0")
  case True then show ?thesis by simp
next
  case False
  define x where "x = real_of_int m * pow2 p"
  have x0: "x \<noteq> 0" using False by (simp add: x_def)
  define b where "b = \<lfloor>log 2 \<bar>x\<bar>\<rfloor>"
  define e where "e = max b (- 1022)"
  define ulp where "ulp = pow2 (e - 52)"
  have u: "0 < ulp" by (simp add: ulp_def)
  have b1: "pow2 b \<le> \<bar>x\<bar>" using binade_bounds [OF x0] by (simp add: b_def)
  have "\<exists>k. x / ulp = real_of_int k"
  proof (cases "e - 52 \<le> p")
    case True
    define d where "d = nat (p - (e - 52))"
    have "p = (e - 52) + int d" using True by (simp add: d_def)
    then have "pow2 p = ulp * 2 ^ d" by (simp add: ulp_def pow2_add pow2_nat)
    then have "x / ulp = real_of_int (m * 2 ^ d)" using u by (simp add: x_def)
    then show ?thesis by blast
  next
    case False
    then have pe: "p \<le> e - 53" by simp
    then have "- 1022 < e" using p by simp
    then have eb: "e = b" by (simp add: e_def max_def split: if_splits)
    have "\<bar>x\<bar> = \<bar>real_of_int m\<bar> * pow2 p" by (simp add: x_def abs_mult)
    also have "\<dots> \<le> 2 ^ 53 * pow2 p"
    proof -
      have "\<bar>real_of_int m\<bar> \<le> real_of_int (2 ^ 53)" using m by linarith
      then show ?thesis by (simp add: mult_right_mono)
    qed
    also have "\<dots> \<le> 2 ^ 53 * pow2 (e - 53)" using pow2_mono [OF pe] by simp
    also have "\<dots> = pow2 e" by (simp add: pow2_diff pow2_numeral)
    finally have "\<bar>x\<bar> = pow2 b" using b1 eb by simp
    then have "\<bar>x\<bar> / ulp = 2 ^ 52" by (simp add: ulp_def eb pow2_diff pow2_numeral)
    then have "\<bar>x / ulp\<bar> = real_of_int (2 ^ 52)" using u by (simp add: abs_divide)
    then have "x / ulp = real_of_int (2 ^ 52) \<or> x / ulp = real_of_int (- (2 ^ 52))"
      by (simp add: abs_if split: if_splits)
    then show ?thesis by blast
  qed
  then obtain k where k: "x / ulp = real_of_int k" by blast
  have "rnd x = real_of_int (round_even (x / ulp)) * ulp"
    by (simp add: rnd_def Let_def b_def e_def ulp_def)
  also have "\<dots> = x" using k u by (simp add: field_simps)
  finally show ?thesis by (simp add: x_def)
qed

lemma round64_exact:
  assumes "- 1074 \<le> p" "\<bar>m\<bar> \<le> 2 ^ 53" "\<bar>of_int m * pow2 p\<bar> < pow2 1024"
  shows "round64 (of_int m * pow2 p) = Fin (of_int m * pow2 p)"
  using assms rnd_exact [of p m] by (simp add: round64_rnd)

lemma round64_of_int:
  assumes "\<bar>m\<bar> \<le> 2 ^ 53"
  shows "round64 (of_int m) = Fin (of_int m)"
proof -
  have "\<bar>real_of_int m\<bar> \<le> real_of_int (2 ^ 53)" using assms by linarith
  also have "\<dots> < pow2 1024" by (simp add: pow2_numeral)
  finally show ?thesis using round64_exact [of 0 m] assms by simp
qed

text \<open>Closeness up to roundings.\<close>

lemma factor_pos [simp]: "0 < rounding_factor" by (simp add: rounding_factor_def)
lemma factor_nonneg [simp]: "0 \<le> rounding_factor" by (simp add: rounding_factor_def)
lemma factor_le1 [simp]: "rounding_factor \<le> 1" by (simp add: rounding_factor_def)

lemma factor_pow_pos [simp]: "0 < rounding_factor ^ k"
  by (rule zero_less_power) simp

lemma factor_pow_le1 [simp]: "rounding_factor ^ k \<le> 1"
  by (rule power_le_one) simp_all

lemma factor_pow_antimono: "j \<le> k \<Longrightarrow> rounding_factor ^ k \<le> rounding_factor ^ j"
  by (rule power_decreasing) simp_all

lemma factor_pow_bernoulli: "1 - real k / 2 ^ 53 \<le> rounding_factor ^ k"
  using Bernoulli_inequality [of "- (1 / 2 ^ 53)" k] by (simp add: rounding_factor_def)

lemma factor_pow_half:
  assumes "k \<le> 2 ^ 52"
  shows "1 / 2 \<le> rounding_factor ^ k"
proof -
  have "real k \<le> 2 ^ 52" using assms by (metis of_nat_le_iff of_nat_numeral of_nat_power)
  then have "real k / 2 ^ 53 \<le> 1 / 2" by simp
  then show ?thesis using factor_pow_bernoulli [of k] by linarith
qed

lemma near_refl: "0 \<le> x \<Longrightarrow> near k x x"
  by (simp add: near_def mult_left_le)

lemma near_zero_left: "near k 0 y \<Longrightarrow> y = 0"
  unfolding near_def using factor_pow_pos [of k]
  by (metis mult_le_0_iff not_less order_antisym)

lemma near_zero_right: "near k x 0 \<Longrightarrow> x = 0"
  unfolding near_def using factor_pow_pos [of k]
  by (metis mult_le_0_iff not_less order_antisym)

lemma near_mono: "near j x y \<Longrightarrow> j \<le> k \<Longrightarrow> near k x y"
  unfolding near_def using factor_pow_antimono [of j k]
  by (meson mult_left_mono order_trans)

lemma near_add: 
  assumes "near j a A" "near k b B"
  shows "near (max j k) (a + b) (A + B)"
proof -
  have 1: "near (max j k) a A" using assms(1) by (rule near_mono) simp
  have 2: "near (max j k) b B" using assms(2) by (rule near_mono) simp
  show ?thesis using 1 2 by (simp add: near_def distrib_right) 
qed

lemma near_mult:
  assumes "near j a A" "near k b B"
  shows "near (j + k) (a * b) (A * B)"
proof -
  let ?c = "rounding_factor"
  have "(a * ?c ^ j) * (b * ?c ^ k) \<le> A * B"
    using assms by (intro mult_mono) (simp_all add: near_def)
  moreover have "(A * ?c ^ j) * (B * ?c ^ k) \<le> a * b"
    using assms by (intro mult_mono) (simp_all add: near_def)
  ultimately show ?thesis using assms by (simp add: near_def power_add mult_ac)
qed

lemma near_divide:
  assumes "near j a A" "near k b B"
  shows "near (j + k) (a / b) (A / B)"
proof (cases "b = 0")
  case True
  then have "B = 0" using assms(2) near_zero_left by blast
  then show ?thesis using True by (simp add: near_def)
next
  case False
  let ?c = "rounding_factor"
  have b: "0 < b" using False assms(2) by (simp add: near_def)
  have B0: "B \<noteq> 0" using False assms(2) near_zero_right by blast
  then have B: "0 < B" using assms(2) by (simp add: near_def)
  have cj: "0 < ?c ^ j" and ck: "0 < ?c ^ k" by simp_all
  have 1: "a * ?c ^ j \<le> A" and 2: "A * ?c ^ j \<le> a" and 3: "b * ?c ^ k \<le> B" and 4: "B * ?c ^ k \<le> b"
    and a: "0 \<le> a" and A: "0 \<le> A"
    using assms by (simp_all add: near_def)
  have "(a / b) * ?c ^ (j + k) = (a * ?c ^ j) * ?c ^ k / b" by (simp add: power_add)
  also have "\<dots> \<le> A * ?c ^ k / b" using 1 b ck by (simp add: divide_right_mono mult_right_mono)
  also have "\<dots> \<le> A / B"
  proof -
    have "?c ^ k / b \<le> 1 / B" using 4 b B by (simp add: field_simps)
    then have "A * (?c ^ k / b) \<le> A * (1 / B)" using A by (rule mult_left_mono)
    then show ?thesis by simp
  qed
  finally have l: "(a / b) * ?c ^ (j + k) \<le> A / B" .
  have "(A / B) * ?c ^ (j + k) = (A * ?c ^ j) * ?c ^ k / B" by (simp add: power_add)
  also have "\<dots> \<le> a * ?c ^ k / B" using 2 B ck by (simp add: divide_right_mono mult_right_mono)
  also have "\<dots> \<le> a / b"
  proof -
    have "?c ^ k / B \<le> 1 / b" using 3 b B by (simp add: field_simps)
    then have "a * (?c ^ k / B) \<le> a * (1 / b)" using a by (rule mult_left_mono)
    then show ?thesis by simp
  qed
  finally have r: "(A / B) * ?c ^ (j + k) \<le> a / b" .
  show ?thesis using l r a A b B by (simp add: near_def)
qed

lemma near_sqrt:
  assumes "near k a A"
  shows "near k (sqrt a) (sqrt A)"
proof -
  let ?c = "rounding_factor"
  have ck: "0 < ?c ^ k" "?c ^ k \<le> 1" by simp_all
  have s: "?c ^ k \<le> sqrt (?c ^ k)"
  proof -
    have "(?c ^ k) * (?c ^ k) \<le> ?c ^ k * 1" using ck by (intro mult_left_mono) simp_all
    then have "(?c ^ k)\<^sup>2 \<le> ?c ^ k" by (simp add: power2_eq_square)
    then have "sqrt ((?c ^ k)\<^sup>2) \<le> sqrt (?c ^ k)" by (rule real_sqrt_le_mono)
    then show ?thesis using ck by simp
  qed
  have 1: "a * ?c ^ k \<le> A" and 2: "A * ?c ^ k \<le> a" and a: "0 \<le> a" and A: "0 \<le> A"
    using assms by (simp_all add: near_def)
  have "sqrt a * ?c ^ k \<le> sqrt a * sqrt (?c ^ k)" using s a by (intro mult_left_mono) simp_all
  also have "\<dots> = sqrt (a * ?c ^ k)" by (simp add: real_sqrt_mult)
  also have "\<dots> \<le> sqrt A" using 1 by simp
  finally have l: "sqrt a * ?c ^ k \<le> sqrt A" .
  have "sqrt A * ?c ^ k \<le> sqrt A * sqrt (?c ^ k)" using s A by (intro mult_left_mono) simp_all
  also have "\<dots> = sqrt (A * ?c ^ k)" by (simp add: real_sqrt_mult)
  also have "\<dots> \<le> sqrt a" using 2 by simp
  finally have r: "sqrt A * ?c ^ k \<le> sqrt a" .
  show ?thesis using l r a A by (simp add: near_def)
qed

lemma near_trans:
  assumes "near j x y" "near k y z"
  shows "near (j + k) x z"
proof -
  let ?c = "rounding_factor"
  have 1: "x * ?c ^ j \<le> y" and 2: "y * ?c ^ j \<le> x" and 3: "y * ?c ^ k \<le> z" and 4: "z * ?c ^ k \<le> y"
    using assms by (simp_all add: near_def)
  have "x * ?c ^ (j + k) = (x * ?c ^ j) * ?c ^ k" by (simp add: power_add)
  also have "\<dots> \<le> y * ?c ^ k" using 1 by (intro mult_right_mono) simp_all
  also have "\<dots> \<le> z" by (rule 3)
  finally have l: "x * ?c ^ (j + k) \<le> z" .
  have "z * ?c ^ (j + k) = (z * ?c ^ k) * ?c ^ j" by (simp add: power_add)
  also have "\<dots> \<le> y * ?c ^ j" using 4 by (intro mult_right_mono) simp_all
  also have "\<dots> \<le> x" by (rule 2)
  finally have r: "z * ?c ^ (j + k) \<le> x" .
  show ?thesis using l r assms by (simp add: near_def)
qed

lemma near_bounds:
  assumes "near k x y" "k \<le> 2 ^ 52"
  shows "x / 2 \<le> y" and "y \<le> 2 * x"
proof -
  let ?c = "rounding_factor"
  have h: "1 / 2 \<le> ?c ^ k" using assms(2) by (rule factor_pow_half)
  have 1: "x * ?c ^ k \<le> y" and 2: "y * ?c ^ k \<le> x" and x: "0 \<le> x" and y: "0 \<le> y"
    using assms(1) by (simp_all add: near_def)
  have "x * (1 / 2) \<le> x * ?c ^ k" using h x by (rule mult_left_mono)
  then show "x / 2 \<le> y" using 1 by simp
  have "y * (1 / 2) \<le> y * ?c ^ k" using h y by (rule mult_left_mono)
  then show "y \<le> 2 * x" using 2 by simp
qed

lemma near_error:
  assumes "near k x y" "k \<le> 2 ^ 52"
  shows "\<bar>y - x\<bar> \<le> x * real k / 2 ^ 52"
proof -
  let ?c = "rounding_factor"
  let ?d = "real k / 2 ^ 53"
  have b: "1 - ?d \<le> ?c ^ k" by (rule factor_pow_bernoulli)
  have 1: "x * ?c ^ k \<le> y" and 2: "y * ?c ^ k \<le> x" and x: "0 \<le> x" and y: "0 \<le> y"
    using assms(1) by (simp_all add: near_def)
  have "x * (1 - ?d) \<le> x * ?c ^ k" using b x by (rule mult_left_mono)
  then have lo: "x - x * ?d \<le> y" using 1 by (simp add: algebra_simps)
  have "y * (1 - ?d) \<le> y * ?c ^ k" using b y by (rule mult_left_mono)
  then have "y - y * ?d \<le> x" using 2 by (simp add: algebra_simps)
  moreover have "y \<le> 2 * x" using assms by (rule near_bounds)
  then have "y * ?d \<le> (2 * x) * ?d" by (intro mult_right_mono) simp_all
  ultimately have hi: "y \<le> x + 2 * x * ?d" by linarith
  have "x * ?d \<le> 2 * x * ?d" using x by simp
  then have "\<bar>y - x\<bar> \<le> 2 * x * ?d" using lo hi by linarith
  also have "\<dots> = x * real k / 2 ^ 52" by simp
  finally show ?thesis .
qed

lemma near_round:
  assumes "x = 0 \<or> (pow2 (- 1022) \<le> x \<and> x \<le> pow2 1023)"
  shows "\<exists>y. round64 x = Fin y \<and> near 1 x y"
proof (cases "x = 0")
  case True then show ?thesis by (simp add: near_def)
next
  case False
  then have r: "pow2 (- 1022) \<le> x" "x \<le> pow2 1023" using assms by auto
  have xp: "0 < x" using r(1) pow2_pos [of "- 1022"] by linarith
  obtain y where y: "round64 x = Fin y" "\<bar>y - x\<bar> \<le> \<bar>x\<bar> * pow2 (- 53)"
    using round64_rel [of x] r xp by auto
  have u: "pow2 (- 53) = 1 / 2 ^ 53" by (simp add: pow2_neg_numeral)
  have e: "\<bar>y - x\<bar> \<le> x / 2 ^ 53" using y(2) xp by (simp add: u)
  define d where "d = x / 2 ^ 53"
  have d: "0 \<le> d" "d \<le> x" using xp by (simp_all add: d_def field_simps)
  have xc: "x * rounding_factor = x - d" by (simp add: rounding_factor_def d_def algebra_simps)
  have e2: "\<bar>y - x\<bar> \<le> d" using e by (simp add: d_def)
  have e': "x - d \<le> y" "y \<le> x + d" using e2 by linarith+
  have lo: "x * rounding_factor \<le> y" using e' xc by simp
  have y0: "0 \<le> y" using e' d by linarith
  have "y * rounding_factor \<le> (x + d) * rounding_factor"
    using e' by (intro mult_right_mono) simp_all
  also have "\<dots> = x - d * (1 / 2 ^ 53)" by (simp add: rounding_factor_def d_def algebra_simps)
  also have "\<dots> \<le> x" using d by simp
  finally have hi: "y * rounding_factor \<le> x" .
  show ?thesis using y(1) lo hi xp y0 by (auto simp: near_def)
qed

text \<open>The operations on results in range.\<close>

lemma round_near:
  assumes n: "near k x X" and k: "k \<le> 2 ^ 52" and r: "in_range x"
  shows "\<exists>Y. round64 X = Fin Y \<and> near (Suc k) x Y"
proof (cases "x = 0")
  case True
  then have "X = 0" using n near_zero_left by blast
  then show ?thesis using True by (simp add: near_def)
next
  case False
  then have lo: "1 / 2 ^ 1000 \<le> x" and hi: "x \<le> 2 ^ 1000" using r by (auto simp: in_range_def)
  have b: "x / 2 \<le> X" "X \<le> 2 * x" using near_bounds [OF n k] by simp_all
  have "pow2 (- 1022) \<le> (1 / 2 ^ 1000) / 2" by (simp add: pow2_neg_numeral)
  also have "\<dots> \<le> x / 2" using lo by simp
  finally have 1: "pow2 (- 1022) \<le> X" using b by linarith
  have "X \<le> 2 * 2 ^ 1000" using b hi by linarith
  also have "\<dots> \<le> pow2 1023" by (simp add: pow2_numeral)
  finally have 2: "X \<le> pow2 1023" .
  obtain Y where Y: "round64 X = Fin Y" "near 1 X Y" using near_round [of X] 1 2 by blast
  have "near (k + 1) x Y" using n Y(2) by (rule near_trans)
  then show ?thesis using Y(1) by auto
qed

lemma fadd_near:
  assumes "near j a A" "near k b B" "j \<le> 2 ^ 52" "k \<le> 2 ^ 52" "in_range (a + b)"
  shows "\<exists>Y. fadd (Fin A) (Fin B) = Fin Y \<and> near (Suc (max j k)) (a + b) Y"
proof -
  have "near (max j k) (a + b) (A + B)" using assms(1,2) by (rule near_add)
  moreover have "max j k \<le> 2 ^ 52" using assms(3,4) by simp
  ultimately show ?thesis using round_near [of "max j k" "a + b" "A + B"] assms(5) by simp
qed

lemma fmul_near:
  assumes "near j a A" "near k b B" "j + k \<le> 2 ^ 52" "in_range (a * b)"
  shows "\<exists>Y. fmul (Fin A) (Fin B) = Fin Y \<and> near (Suc (j + k)) (a * b) Y"
proof -
  have "near (j + k) (a * b) (A * B)" using assms(1,2) by (rule near_mult)
  then show ?thesis using round_near [of "j + k" "a * b" "A * B"] assms(3,4) by simp
qed

lemma fdiv_near:
  assumes "near j a A" "near k b B" "j + k \<le> 2 ^ 52" "in_range (a / b)" "0 < b"
  shows "\<exists>Y. fdiv (Fin A) (Fin B) = Fin Y \<and> near (Suc (j + k)) (a / b) Y"
proof -
  have "near (j + k) (a / b) (A / B)" using assms(1,2) by (rule near_divide)
  moreover have "B \<noteq> 0" using assms(2,5) near_zero_right [of k b] by auto
  ultimately show ?thesis using round_near [of "j + k" "a / b" "A / B"] assms(3,4) by simp
qed

lemma fsqrt_near:
  assumes "near k a A" "k \<le> 2 ^ 52" "in_range (sqrt a)"
  shows "\<exists>Y. fsqrt (Fin A) = Fin Y \<and> near (Suc k) (sqrt a) Y"
proof -
  have "near k (sqrt a) (sqrt A)" using assms(1) by (rule near_sqrt)
  moreover have "\<not> A < 0" using assms(1) by (simp add: near_def)
  ultimately show ?thesis using round_near [of k "sqrt a" "sqrt A"] assms(2,3) by simp
qed

lemma in_range_sqrt: "in_range x \<Longrightarrow> in_range (sqrt x)"
proof -
  assume r: "in_range x"
  show ?thesis
  proof (cases "x = 0")
    case True then show ?thesis by (simp add: in_range_def)
  next
    case False
    then have lo: "1 / 2 ^ 1000 \<le> x" and hi: "x \<le> 2 ^ 1000" using r by (auto simp: in_range_def)
    have "sqrt ((1 / 2 ^ 500)\<^sup>2) \<le> sqrt x" using lo by (intro real_sqrt_le_mono) (simp add: power2_eq_square)
    then have 1: "1 / 2 ^ 500 \<le> sqrt x" by simp
    have "sqrt x \<le> sqrt ((2 ^ 500)\<^sup>2)" using hi by (intro real_sqrt_le_mono) (simp add: power2_eq_square)
    then have 2: "sqrt x \<le> 2 ^ 500" by simp
    have "(1 :: real) / 2 ^ 1000 \<le> 1 / 2 ^ 500" by simp
    moreover have "(2 :: real) ^ 500 \<le> 2 ^ 1000" by simp
    ultimately show ?thesis using 1 2 unfolding in_range_def by linarith
  qed
qed

text \<open>A sum accumulated from left to right.\<close>

lemma fold_fadd_near:
  assumes g: "\<And>x. x \<in> set xs \<Longrightarrow> \<exists>T. g x = Fin T \<and> near k (t x) T"
    and lo: "\<And>x. x \<in> set xs \<Longrightarrow> t x = 0 \<or> 1 / 2 ^ 1000 \<le> t x"
    and s0: "near k0 s0 S0" "s0 = 0 \<or> 1 / 2 ^ 1000 \<le> s0"
    and hi: "s0 + (\<Sum>x\<leftarrow>xs. t x) \<le> 2 ^ 1000"
    and kk: "max k0 k + length xs \<le> 2 ^ 52"
  shows "\<exists>Y. foldl (\<lambda>acc x. fadd acc (g x)) (Fin S0) xs = Fin Y
             \<and> near (max k0 k + length xs) (s0 + (\<Sum>x\<leftarrow>xs. t x)) Y"
  using assms
proof (induction xs arbitrary: k0 s0 S0)
  case Nil
  have "near (max k0 k) s0 S0" using Nil.prems(3) by (rule near_mono) simp
  then show ?case by simp
next
  case (Cons x xs)
  obtain T where T: "g x = Fin T" "near k (t x) T" using Cons.prems(1) [of x] by auto
  have tx: "0 \<le> t x" using T(2) by (simp add: near_def)
  have s0n: "0 \<le> s0" using Cons.prems(3) by (simp add: near_def)
  have rest: "0 \<le> (\<Sum>y\<leftarrow>xs. t y)"
  proof (rule sum_list_nonneg)
    fix v assume "v \<in> set (map t xs)"
    then obtain y where y: "y \<in> set xs" "v = t y" by auto
    obtain U where "near k (t y) U" using Cons.prems(1) [of y] y(1) by auto
    then show "0 \<le> v" by (simp add: y(2) near_def)
  qed
  have up: "s0 + t x \<le> 2 ^ 1000" using Cons.prems(5) rest by simp
  have low: "s0 + t x = 0 \<or> 1 / 2 ^ 1000 \<le> s0 + t x"
    using Cons.prems(2) [of x] Cons.prems(4) tx s0n by auto
  have r: "in_range (s0 + t x)" using up low by (auto simp: in_range_def)
  have k0: "k0 \<le> 2 ^ 52" and k: "k \<le> 2 ^ 52" using Cons.prems(6) by simp_all
  obtain S1 where S1: "fadd (Fin S0) (Fin T) = Fin S1" "near (Suc (max k0 k)) (s0 + t x) S1"
    using fadd_near [OF Cons.prems(3) T(2) k0 k r] by blast
  have m: "max (Suc (max k0 k)) k = Suc (max k0 k)" by simp
  have "\<exists>Y. foldl (\<lambda>acc x. fadd acc (g x)) (Fin S1) xs = Fin Y
             \<and> near (max (Suc (max k0 k)) k + length xs) ((s0 + t x) + (\<Sum>x\<leftarrow>xs. t x)) Y"
  proof (rule Cons.IH)
    show "\<And>y. y \<in> set xs \<Longrightarrow> \<exists>T. g y = Fin T \<and> near k (t y) T" using Cons.prems(1) by simp
    show "\<And>y. y \<in> set xs \<Longrightarrow> t y = 0 \<or> 1 / 2 ^ 1000 \<le> t y" using Cons.prems(2) by simp
    show "near (Suc (max k0 k)) (s0 + t x) S1" by (rule S1(2))
    show "s0 + t x = 0 \<or> 1 / 2 ^ 1000 \<le> s0 + t x" by (rule low)
    show "s0 + t x + (\<Sum>x\<leftarrow>xs. t x) \<le> 2 ^ 1000" using Cons.prems(5) by (simp add: add.assoc)
    show "max (Suc (max k0 k)) k + length xs \<le> 2 ^ 52" using Cons.prems(6) by (simp add: m)
  qed
  moreover have "round64 (S0 + T) = Fin S1" using S1(1) by simp
  ultimately show ?case by (simp add: T(1) m add.assoc)
qed

lemma fmul_self_near:
  assumes "in_range (r * r)"
  shows "\<exists>T. fmul (Fin r) (Fin r) = Fin T \<and> near 1 (r * r) T"
proof -
  have n: "near 0 \<bar>r\<bar> \<bar>r\<bar>" by (rule near_refl) simp
  have "in_range (\<bar>r\<bar> * \<bar>r\<bar>)" using assms by simp
  then have "\<exists>Y. fmul (Fin \<bar>r\<bar>) (Fin \<bar>r\<bar>) = Fin Y \<and> near (Suc (0 + 0)) (\<bar>r\<bar> * \<bar>r\<bar>) Y"
    using fmul_near [OF n n] by simp
  then show ?thesis by simp
qed

text \<open>Sums of lists of real numbers.\<close>

lemma sum_list_le_length:
  fixes f :: "'a \<Rightarrow> real"
  assumes "\<And>x. x \<in> set xs \<Longrightarrow> f x \<le> c"
  shows "sum_list (map f xs) \<le> real (length xs) * c"
  using assms by (induction xs) (auto simp: algebra_simps intro: add_mono)

lemma member_le_sum_list_real:
  fixes xs :: "real list"
  assumes "x \<in> set xs" "\<And>y. y \<in> set xs \<Longrightarrow> 0 \<le> y"
  shows "x \<le> sum_list xs"
  using assms
proof (induction xs)
  case Nil then show ?case by simp
next
  case (Cons a xs)
  have r: "0 \<le> sum_list xs" by (rule sum_list_nonneg) (use Cons.prems(2) in simp)
  show ?case
  proof (cases "x = a")
    case True then show ?thesis using r by simp
  next
    case False
    then have "x \<le> sum_list xs" using Cons by simp
    moreover have "0 \<le> a" using Cons.prems(2) by simp
    ultimately show ?thesis by simp
  qed
qed


section \<open>Properties of the chunker\<close>

lemma split_on_nonempty: "split_on c s \<noteq> []"
  by (induction s) (auto split: list.splits)

lemma join_split_on: "join [c] (split_on c s) = s"
proof (induction s)
  case Nil
  show ?case by simp
next
  case (Cons a s)
  obtain l ls where sp: "split_on c s = l # ls"
    using split_on_nonempty [of c s] by (cases "split_on c s") auto
  show ?case
    using Cons sp by (cases ls) auto
qed

lemma windows_not_summary: "c \<in> set (windows f ls i) \<Longrightarrow> \<not> isSummary c"
proof (induction f ls i rule: windows.induct)
  case (1 f ls i)
  show ?case
  proof (cases "i < length ls")
    case True
    with 1 show ?thesis
      by (subst (asm) (2) windows.simps) (auto simp: Let_def split: if_splits)
  next
    case False
    with 1(2) show ?thesis
      by (subst (asm) windows.simps) simp
  qed
qed

lemma length_windows:
  "i = 40 * j \<Longrightarrow>
   length (windows f ls i) =
   length (filter (\<lambda>k. window_emitted ls (40 * k)) [j ..< (length ls + 39) div 40])"
proof (induction f ls i arbitrary: j rule: windows.induct)
  case (1 f ls i)
  show ?case
  proof (cases "i < length ls")
    case True
    have j: "j < (length ls + 39) div 40" using True 1(2) by linarith
    have step: "length (windows f ls (i + 40)) =
      length (filter (\<lambda>k. window_emitted ls (40 * k)) [Suc j ..< (length ls + 39) div 40])"
      using 1(1) [of "take chunkSize (drop i ls)" "i + 1" "min (i + chunkSize) (length ls)" "Suc j"] True 1(2)
      by (simp add: chunkSize_def overlap_def)
    have "length (windows f ls i) =
       (if window_emitted ls i then 1 else 0) + length (windows f ls (i + 40))"
      by (subst windows.simps)
         (simp add: True Let_def window_emitted_def window_text_def chunkSize_def overlap_def)
    then show ?thesis
      using step j 1(2) by (simp add: upt_conv_Cons)
  next
    case False
    then have "\<not> j < (length ls + 39) div 40" using 1(2) by linarith
    then show ?thesis using False
      by (subst windows.simps) simp
  qed
qed

lemma windows_ranges:
  "c \<in> set (windows f ls i) \<Longrightarrow> i = 40 * j \<Longrightarrow>
   \<exists>k\<ge>j. 40 * k < length ls \<and> startLine c = 40 * k + 1
        \<and> endLine c = min (40 * k + 50) (length ls) \<and> content c = window_text ls (40 * k)"
proof (induction f ls i arbitrary: j rule: windows.induct)
  case (1 f ls i)
  show ?case
  proof (cases "i < length ls")
    case False
    with 1(2) show ?thesis by (subst (asm) windows.simps) simp
  next
    case True
    from 1(2) have "c \<in> set (if window_emitted ls i
        then [\<lparr>path = path f, fileName = fileName f, language = language f,
                    folder = folder f, content = window_text ls i,
                    startLine = i + 1, endLine = min (i + 50) (length ls), isSummary = False\<rparr>]
        else []) \<or> c \<in> set (windows f ls (i + 40))"
      by (subst (asm) windows.simps)
         (auto simp: True Let_def window_emitted_def window_text_def chunkSize_def overlap_def
           split: if_splits)
    then show ?thesis
    proof
      assume "c \<in> set (if window_emitted ls i
        then [\<lparr>path = path f, fileName = fileName f, language = language f,
                    folder = folder f, content = window_text ls i,
                    startLine = i + 1, endLine = min (i + 50) (length ls), isSummary = False\<rparr>]
        else [])"
      then show ?thesis using True 1(3) by (intro exI [of _ j]) (auto split: if_splits)
    next
      assume c: "c \<in> set (windows f ls (i + 40))"
      have "\<exists>k\<ge>Suc j. 40 * k < length ls \<and> startLine c = 40 * k + 1
        \<and> endLine c = min (40 * k + 50) (length ls) \<and> content c = window_text ls (40 * k)"
        using 1(1) [of "take chunkSize (drop i ls)" "i + 1" "min (i + chunkSize) (length ls)" "Suc j"]
          True c 1(3)
        by (simp add: chunkSize_def overlap_def)
      then show ?thesis by (meson Suc_leD)
    qed
  qed
qed

lemma windows_short:
  assumes "length ls \<le> 40" "ls \<noteq> []" "trim (join [nl] ls) \<noteq> []"
  shows "windows f ls 0 =
     [\<lparr>path = path f, fileName = fileName f, language = language f, folder = folder f,
       content = join [nl] ls, startLine = 1, endLine = length ls, isSummary = False\<rparr>]"
proof -
  have "windows f ls 40 = []" using assms(1) by (subst windows.simps) simp
  then show ?thesis
    using assms by (subst windows.simps) (simp add: Let_def chunkSize_def overlap_def)
qed

text \<open>
  Claim C1, as the code has it. A file has at least one line. Its chunk list starts with
  the one summary chunk; every other chunk is a window. One window starts at each index
  0, 40, 80, ... below the line count \<open>L\<close> and is kept exactly when its trimmed text is
  not empty, so there are at most \<open>ceil(L/40)\<close> windowed chunks, and exactly that many when
  no window is blank; the window that starts at index \<open>40 * k\<close> spans the lines
  \<open>40 * k + 1\<close> to \<open>min (40 * k + 50) L\<close>. A file of at most 40 lines whose content is
  not all white space yields the summary chunk and one window spanning the whole file.
\<close>

theorem chunkContent_shape:
  "let ls = split_on nl (content f); L = length ls; cs = chunkContent f in
    L \<ge> 1
    \<and> filter isSummary cs = [summary_chunk f ls]
    \<and> hd cs = summary_chunk f ls
    \<and> length (windowed cs) = length (filter (\<lambda>k. window_emitted ls (40 * k)) [0 ..< (L + 39) div 40])
    \<and> length (windowed cs) \<le> (L + 39) div 40
    \<and> ((\<forall>k. 40 * k < L \<longrightarrow> window_emitted ls (40 * k)) \<longrightarrow> length (windowed cs) = (L + 39) div 40)
    \<and> (\<forall>c\<in>set (windowed cs). \<exists>k. 40 * k < L \<and> startLine c = 40 * k + 1
           \<and> endLine c = min (40 * k + 50) L \<and> content c = window_text ls (40 * k))
    \<and> (L \<le> 40 \<and> trim (content f) \<noteq> [] \<longrightarrow>
         cs = [summary_chunk f ls,
               \<lparr>path = path f, fileName = fileName f, language = language f,
                folder = folder f, content = content f,
                startLine = 1, endLine = L, isSummary = False\<rparr>])"
proof -
  define ls where "ls = split_on nl (content f)"
  define n where "n = (length ls + 39) div 40"
  have L: "length ls \<ge> 1" using split_on_nonempty [of nl "content f"]
    by (cases ls) (auto simp: ls_def)
  have cs: "chunkContent f = summary_chunk f ls # windows f ls 0"
    by (simp add: chunkContent_def ls_def Let_def)
  have sm: "isSummary (summary_chunk f ls)" by (simp add: summary_chunk_def)
  have ns: "\<forall>c\<in>set (windows f ls 0). \<not> isSummary c"
    using windows_not_summary by blast
  have f1: "filter isSummary (chunkContent f) = [summary_chunk f ls]"
    using sm ns by (simp add: cs filter_empty_conv)
  have w: "windowed (chunkContent f) = windows f ls 0"
    using sm ns by (simp add: cs windowed_def filter_id_conv)
  have cnt: "length (windowed (chunkContent f)) =
      length (filter (\<lambda>k. window_emitted ls (40 * k)) [0 ..< n])"
    unfolding w n_def by (rule length_windows) simp
  have le: "length (windowed (chunkContent f)) \<le> n"
    unfolding cnt using length_filter_le [of _ "[0 ..< n]"] by simp
  have all: "length (windowed (chunkContent f)) = n"
    if "\<forall>k. 40 * k < length ls \<longrightarrow> window_emitted ls (40 * k)"
  proof -
    have "\<forall>k\<in>set [0 ..< n]. window_emitted ls (40 * k)"
    proof
      fix k assume "k \<in> set [0 ..< n]"
      then have "40 * k < length ls" unfolding n_def by auto
      with that show "window_emitted ls (40 * k)" by blast
    qed
    then have "filter (\<lambda>k. window_emitted ls (40 * k)) [0 ..< n] = [0 ..< n]"
      by (simp add: filter_id_conv)
    then show ?thesis unfolding cnt by simp
  qed
  have short: "chunkContent f = [summary_chunk f ls,
               \<lparr>path = path f, fileName = fileName f, language = language f,
                folder = folder f, content = content f,
                startLine = 1, endLine = length ls, isSummary = False\<rparr>]"
    if "length ls \<le> 40" "trim (content f) \<noteq> []"
  proof -
    have j: "join [nl] ls = content f" unfolding ls_def by (rule join_split_on)
    have "ls \<noteq> []" using L by auto
    then show ?thesis
      using windows_short [of ls f] that j by (simp add: cs)
  qed
  have rng: "\<forall>c\<in>set (windowed (chunkContent f)). \<exists>k. 40 * k < length ls \<and> startLine c = 40 * k + 1
           \<and> endLine c = min (40 * k + 50) (length ls) \<and> content c = window_text ls (40 * k)"
  proof
    fix c assume "c \<in> set (windowed (chunkContent f))"
    then have "c \<in> set (windows f ls 0)" by (simp add: w)
    from windows_ranges [OF this, of 0] show "\<exists>k. 40 * k < length ls \<and> startLine c = 40 * k + 1
           \<and> endLine c = min (40 * k + 50) (length ls) \<and> content c = window_text ls (40 * k)"
      by auto
  qed
  show ?thesis
    unfolding Let_def ls_def [symmetric] n_def [symmetric]
    using L f1 cs cnt le all short rng by simp
qed


text \<open>The hypotheses of the theorem hold for a file of two lines.\<close>

theorem chunkContent_shape_witness:
  "length (split_on nl (content (lines_file 2))) \<le> 40
   \<and> trim (content (lines_file 2)) \<noteq> []
   \<and> window_emitted (split_on nl (content (lines_file 2))) 0
   \<and> length (windowed (chunkContent (lines_file 2))) = 1
   \<and> length (chunkContent (lines_file 2)) = 2"
proof -
  have sp: "split_on nl (content (lines_file 2)) = [''x'', ''x'']" by code_simp
  have tr: "trim (content (lines_file 2)) \<noteq> []" by code_simp
  have em: "window_emitted [''x'', ''x''] 0" by code_simp
  have all: "\<forall>k. 40 * k < length [''x'', ''x''] \<longrightarrow> window_emitted [''x'', ''x''] (40 * k)"
  proof (intro allI impI)
    fix k :: nat
    assume "40 * k < length [''x'', ''x'']"
    then have "k = 0" by simp
    then show "window_emitted [''x'', ''x''] (40 * k)" using em by simp
  qed
  note shape = chunkContent_shape [of "lines_file 2", unfolded Let_def sp]
  have n: "length (windowed (chunkContent (lines_file 2))) = 1"
    using shape all by simp
  have "length [''x'', ''x''] \<le> 40" by simp
  with shape tr have "length (chunkContent (lines_file 2)) = length [summary_chunk (lines_file 2) [''x'', ''x''], summary_chunk (lines_file 2) [''x'', ''x'']]"
    by simp
  then have c: "length (chunkContent (lines_file 2)) = 2" by simp
  show ?thesis
    unfolding sp using tr em n c by simp
qed

text \<open>
  Claim C1 as stated fails. A file of 100 non-blank lines has 3 windows where the formula
  \<open>ceil(max(L-10,0)/40)+1\<close> gives 4; a file of 45 lines, shorter than one window of 50,
  has 2 windows; a file whose content is a single space has the summary chunk only.
\<close>

theorem chunk_count_counterexample:
  "length (windowed (chunkContent (lines_file 100))) = 3
   \<and> spec_window_count (length (split_on nl (content (lines_file 100)))) = 4
   \<and> length (split_on nl (content (lines_file 45))) = 45
   \<and> length (windowed (chunkContent (lines_file 45))) = 2
   \<and> content blank_file \<noteq> []
   \<and> length (chunkContent blank_file) = 1"
  by code_simp



section \<open>Properties of cosine similarity\<close>

text \<open>The loop computes its three sums independently of each other.\<close>

lemma foldl_triple:
  "foldl (\<lambda>(d, p, q) i. (fadd d (f i), fadd p (g i), fadd q (h i))) (d0, p0, q0) xs
     = (foldl (\<lambda>s i. fadd s (f i)) d0 xs, foldl (\<lambda>s i. fadd s (g i)) p0 xs,
        foldl (\<lambda>s i. fadd s (h i)) q0 xs)"
  by (induction xs arbitrary: d0 p0 q0) simp_all

lemma cosine_sums_split:
  "cosine_sums a b =
     (foldl (\<lambda>s i. fadd s (fmul (a ! i) (b ! i))) (Fin 0) [0 ..< length a],
      foldl (\<lambda>s i. fadd s (fmul (a ! i) (a ! i))) (Fin 0) [0 ..< length a],
      foldl (\<lambda>s i. fadd s (fmul (b ! i) (b ! i))) (Fin 0) [0 ..< length a])"
  unfolding cosine_sums_def by (rule foldl_triple)

lemma fmul_commute: "fmul a b = fmul b a"
  by (cases a; cases b) (simp_all add: mult.commute)

lemma cosine_sums_commute:
  assumes "length a = length b"
  shows "cosine_sums b a = (case cosine_sums a b of (d, na, nb) \<Rightarrow> (d, nb, na))"
  unfolding cosine_sums_split using assms by (simp add: fmul_commute [of "b ! _" "a ! _"])

lemma cosineSimilarity_commute: "cosineSimilarity a b = cosineSimilarity b a"
proof (cases "\<exists>p q. a = Some p \<and> b = Some q \<and> length p = length q")
  case False
  then show ?thesis
    by (auto simp: cosineSimilarity_def split: option.splits)
next
  case True
  then obtain c d where cd: "a = Some c" "b = Some d" "length c = length d" by blast
  obtain x na nb where s: "cosine_sums c d = (x, na, nb)" by (cases "cosine_sums c d") auto
  have s': "cosine_sums d c = (x, nb, na)" using cosine_sums_commute [OF cd(3)] s by simp
  show ?thesis
    by (simp add: cosineSimilarity_def cd s s' fmul_commute [of "fsqrt nb" "fsqrt na"])
qed

text \<open>A vector of zeros has the squared norm zero, and a denominator with the factor zero is
  not greater than zero.\<close>

lemma foldl_zero_squares:
  assumes "\<forall>i\<in>set xs. v ! i = Fin 0"
  shows "foldl (\<lambda>s i. fadd s (fmul (v ! i) (v ! i))) (Fin 0) xs = Fin 0"
  using assms by (induction xs) simp_all

lemma not_fgt_fmul_zero_left: "\<not> fgt (fmul (Fin 0) z) (Fin 0)"
  by (cases z) (simp_all add: fgt_def)

lemma not_fgt_fmul_zero_right: "\<not> fgt (fmul z (Fin 0)) (Fin 0)"
  by (cases z) (simp_all add: fgt_def)

lemma cosineSimilarity_zero:
  assumes "length p \<noteq> length q \<or> (\<forall>x\<in>set p. x = Fin 0) \<or> (\<forall>x\<in>set q. x = Fin 0)"
  shows "cosineSimilarity (Some p) (Some q) = Fin 0"
proof (cases "length p = length q")
  case False
  then show ?thesis by (simp add: cosineSimilarity_def)
next
  case True
  obtain x na nb where s: "cosine_sums p q = (x, na, nb)" by (cases "cosine_sums p q") auto
  from True assms consider "\<forall>x\<in>set p. x = Fin 0" | "\<forall>x\<in>set q. x = Fin 0" by blast
  then show ?thesis
  proof cases
    case 1
    then have "\<forall>i\<in>set [0 ..< length p]. p ! i = Fin 0" by simp
    then have "na = Fin 0" using s foldl_zero_squares [of "[0 ..< length p]" p]
      by (simp add: cosine_sums_split)
    then show ?thesis
      by (simp add: cosineSimilarity_def True s not_fgt_fmul_zero_left)
  next
    case 2
    then have "\<forall>i\<in>set [0 ..< length p]. q ! i = Fin 0" using True by simp
    then have "nb = Fin 0" using s foldl_zero_squares [of "[0 ..< length p]" q]
      by (simp add: cosine_sums_split)
    then show ?thesis
      by (simp add: cosineSimilarity_def True s not_fgt_fmul_zero_right)
  qed
qed

text \<open>Components of moderate magnitude.\<close>

lemma moderate_cases:
  assumes "moderate d"
  obtains "d = Fin 0" | r where "d = Fin r" "1 / 2 ^ 200 \<le> \<bar>r\<bar>" "\<bar>r\<bar> \<le> 2 ^ 200"
  using assms by (cases d) auto

lemma moderate_square:
  assumes "moderate d"
  shows "value_of d * value_of d = 0 \<or> 1 / 2 ^ 1000 \<le> value_of d * value_of d"
    and "value_of d * value_of d \<le> 2 ^ 400"
    and "d \<noteq> Fin 0 \<Longrightarrow> 1 / 2 ^ 400 \<le> value_of d * value_of d"
    and "\<exists>T. fmul d d = Fin T \<and> near 1 (value_of d * value_of d) T"
proof -
  have *: "(value_of d * value_of d \<le> 2 ^ 400)
     \<and> (d \<noteq> Fin 0 \<longrightarrow> 1 / 2 ^ 400 \<le> value_of d * value_of d)
     \<and> (\<exists>r. d = Fin r)"
    using assms
  proof (cases rule: moderate_cases)
    case 1 then show ?thesis by simp
  next
    case (2 r)
    have "\<bar>r\<bar> * \<bar>r\<bar> \<le> 2 ^ 200 * 2 ^ 200" using 2 by (intro mult_mono) simp_all
    then have u: "r * r \<le> 2 ^ 400" by simp
    have "(1 / 2 ^ 200) * (1 / 2 ^ 200) \<le> \<bar>r\<bar> * \<bar>r\<bar>" using 2 by (intro mult_mono) simp_all
    then have l: "1 / 2 ^ 400 \<le> r * r" by simp
    show ?thesis using u l 2(1) by simp
  qed
  show u: "value_of d * value_of d \<le> 2 ^ 400" using * by blast
  show l: "d \<noteq> Fin 0 \<Longrightarrow> 1 / 2 ^ 400 \<le> value_of d * value_of d" using * by blast
  have "(1 :: real) / 2 ^ 1000 \<le> 1 / 2 ^ 400" by simp
  then show z: "value_of d * value_of d = 0 \<or> 1 / 2 ^ 1000 \<le> value_of d * value_of d"
    using l by (cases "d = Fin 0") auto
  obtain r where r: "d = Fin r" using * by blast
  have "(2 :: real) ^ 400 \<le> 2 ^ 1000" by simp
  then have "in_range (r * r)" using z u by (auto simp: in_range_def r)
  then show "\<exists>T. fmul d d = Fin T \<and> near 1 (value_of d * value_of d) T"
    using fmul_self_near [of r] by (simp add: r)
qed

text \<open>The squared norm of a vector of moderate components, as the loops compute it.\<close>

lemma squares_near:
  assumes "moderate_vector v"
  shows "\<exists>Y. foldl (\<lambda>s i. fadd s (fmul (v ! i) (v ! i))) (Fin 0) [0 ..< length v] = Fin Y
     \<and> near (Suc (length v)) (\<Sum>d\<leftarrow>v. value_of d * value_of d) Y
     \<and> (\<Sum>d\<leftarrow>v. value_of d * value_of d) \<le> 2 ^ 432
     \<and> ((\<exists>d\<in>set v. d \<noteq> Fin 0) \<longrightarrow> 1 / 2 ^ 400 \<le> (\<Sum>d\<leftarrow>v. value_of d * value_of d))"
proof -
  let ?t = "\<lambda>d. value_of d * value_of d"
  have len: "length v < 2 ^ 32" and m: "\<And>d. d \<in> set v \<Longrightarrow> moderate d"
    using assms by (auto simp: moderate_vector_def list_all_iff)
  have idx: "(\<Sum>i\<leftarrow>[0 ..< length v]. ?t (v ! i)) = (\<Sum>d\<leftarrow>v. ?t d)"
  proof -
    have "map (\<lambda>i. ?t (v ! i)) [0 ..< length v] = map ?t (map (\<lambda>i. v ! i) [0 ..< length v])"
      by simp
    also have "\<dots> = map ?t v" by (simp only: map_nth)
    finally show ?thesis by simp
  qed
  have "(\<Sum>d\<leftarrow>v. ?t d) \<le> real (length v) * 2 ^ 400"
    by (rule sum_list_le_length) (use m moderate_square(2) in blast)
  also have "\<dots> \<le> 2 ^ 32 * 2 ^ 400"
  proof -
    have "real (length v) \<le> 2 ^ 32" using len by (metis less_imp_le of_nat_le_iff of_nat_numeral of_nat_power)
    then show ?thesis by (intro mult_right_mono) simp_all
  qed
  finally have up: "(\<Sum>d\<leftarrow>v. ?t d) \<le> 2 ^ 432" by simp
  have "\<exists>Y. foldl (\<lambda>acc i. fadd acc (fmul (v ! i) (v ! i))) (Fin 0) [0 ..< length v] = Fin Y
             \<and> near (max 0 1 + length [0 ..< length v]) (0 + (\<Sum>i\<leftarrow>[0 ..< length v]. ?t (v ! i))) Y"
  proof (rule fold_fadd_near)
    fix i assume "i \<in> set [0 ..< length v]"
    then have "moderate (v ! i)" using m by simp
    then show "\<exists>T. fmul (v ! i) (v ! i) = Fin T \<and> near 1 (?t (v ! i)) T"
      and "?t (v ! i) = 0 \<or> 1 / 2 ^ 1000 \<le> ?t (v ! i)"
      using moderate_square(4) moderate_square(1) by blast+
  next
    show "near 0 0 0" by (simp add: near_def)
    show "(0 :: real) = 0 \<or> 1 / 2 ^ 1000 \<le> (0 :: real)" by simp
    have "(2 :: real) ^ 432 \<le> 2 ^ 1000" by simp
    then show "0 + (\<Sum>i\<leftarrow>[0 ..< length v]. ?t (v ! i)) \<le> 2 ^ 1000" using up idx by simp
    have "1 + length v \<le> 1 + 2 ^ 32" using len by simp
    also have "\<dots> \<le> (2 :: nat) ^ 52" by simp
    finally show "max 0 1 + length [0 ..< length v] \<le> 2 ^ 52" by simp
  qed
  then obtain Y where Y: "foldl (\<lambda>acc i. fadd acc (fmul (v ! i) (v ! i))) (Fin 0) [0 ..< length v] = Fin Y"
      "near (Suc (length v)) (\<Sum>d\<leftarrow>v. ?t d) Y"
    using idx by auto
  have low: "1 / 2 ^ 400 \<le> (\<Sum>d\<leftarrow>v. ?t d)" if h: "\<exists>d\<in>set v. d \<noteq> Fin 0"
  proof -
    obtain d where d: "d \<in> set v" "d \<noteq> Fin 0" using h by blast
    have "1 / 2 ^ 400 \<le> ?t d" using moderate_square(3) [OF m [OF d(1)] d(2)] .
    also have "?t d \<le> sum_list (map ?t v)"
      by (rule member_le_sum_list_real) (use d(1) in auto)
    finally show ?thesis .
  qed
  show ?thesis using Y up low by blast
qed

lemma in_range_bounds:
  assumes "near k x y" "k \<le> 2 ^ 52" "1 / 2 ^ 999 \<le> x" "x \<le> 2 ^ 999"
  shows "in_range y" and "0 < y"
proof -
  have b: "x / 2 \<le> y" "y \<le> 2 * x" using near_bounds [OF assms(1,2)] by simp_all
  have "(1 / 2 ^ 999) / 2 \<le> x / 2" using assms(3) by simp
  then have 1: "1 / 2 ^ 1000 \<le> y" using b by simp
  have "2 * x \<le> 2 * 2 ^ 999" using assms(4) by simp
  then have 2: "y \<le> 2 ^ 1000" using b by simp
  show "in_range y" using 1 2 by (simp add: in_range_def)
  have "(0 :: real) < 1 / 2 ^ 1000" by simp
  then show "0 < y" using 1 by linarith
qed

text \<open>The quotient of a squared norm by the product of its two rounded roots.\<close>

lemma self_quotient:
  assumes "in_range Y" "0 < Y"
  shows "\<exists>q P R. fsqrt (Fin Y) = Fin q \<and> fmul (Fin q) (Fin q) = Fin P \<and> 0 < P
     \<and> fdiv (Fin Y) (Fin P) = Fin R \<and> near 4 1 R"
proof -
  have n0: "near 0 Y Y" using assms(2) by (intro near_refl) simp
  obtain q where q: "fsqrt (Fin Y) = Fin q" "near (Suc 0) (sqrt Y) q"
    using fsqrt_near [OF n0 _ in_range_sqrt [OF assms(1)]] by auto
  have sq: "sqrt Y * sqrt Y = Y" using assms(2) by simp
  have ir: "in_range (sqrt Y * sqrt Y)" using assms(1) by (simp only: sq)
  have "\<exists>P. fmul (Fin q) (Fin q) = Fin P \<and> near (Suc (Suc 0 + Suc 0)) (sqrt Y * sqrt Y) P"
    by (rule fmul_near [OF q(2) q(2) _ ir]) simp
  then obtain P where P: "fmul (Fin q) (Fin q) = Fin P" and nP: "near 3 Y P"
    unfolding sq by (auto simp: numeral_3_eq_3)
  have P0: "P \<noteq> 0" using nP near_zero_right [of 3 Y] assms(2) by auto
  then have Ppos: "0 < P" using nP by (simp add: near_def)
  have yy: "Y / Y = 1" using assms(2) by simp
  have ir1: "in_range (Y / Y)" unfolding yy by (simp add: in_range_def)
  have "\<exists>R. fdiv (Fin Y) (Fin P) = Fin R \<and> near (Suc (0 + 3)) (Y / Y) R"
    by (rule fdiv_near [OF n0 nP _ ir1 assms(2)]) simp
  then obtain R where R: "fdiv (Fin Y) (Fin P) = Fin R" and nR: "near 4 1 R"
    unfolding yy by (auto simp: eval_nat_numeral)
  show ?thesis using q(1) P Ppos R nR by blast
qed

lemma cosineSimilarity_self:
  assumes m: "moderate_vector v" and nz: "\<exists>x\<in>set v. x \<noteq> Fin 0"
  shows "\<exists>R. cosineSimilarity (Some v) (Some v) = Fin R \<and> near 4 1 R"
proof -
  obtain Y where Y: "foldl (\<lambda>s i. fadd s (fmul (v ! i) (v ! i))) (Fin 0) [0 ..< length v] = Fin Y"
      "near (Suc (length v)) (\<Sum>d\<leftarrow>v. value_of d * value_of d) Y"
      "(\<Sum>d\<leftarrow>v. value_of d * value_of d) \<le> 2 ^ 432"
      "1 / 2 ^ 400 \<le> (\<Sum>d\<leftarrow>v. value_of d * value_of d)"
    using squares_near [OF m] nz by blast
  have len: "length v < 2 ^ 32" using m by (simp add: moderate_vector_def)
  have "Suc (length v) \<le> 2 ^ 32" using len by simp
  also have "\<dots> \<le> (2 :: nat) ^ 52" by simp
  finally have k: "Suc (length v) \<le> 2 ^ 52" .
  have lo: "(1 :: real) / 2 ^ 999 \<le> 1 / 2 ^ 400" by simp
  have hi: "(2 :: real) ^ 432 \<le> 2 ^ 999" by simp
  have r: "in_range Y" "0 < Y"
    using in_range_bounds [OF Y(2) k] lo hi Y(3,4) by simp_all
  obtain q P R where f: "fsqrt (Fin Y) = Fin q" "fmul (Fin q) (Fin q) = Fin P" "0 < P"
      "fdiv (Fin Y) (Fin P) = Fin R" "near 4 1 R"
    using self_quotient [OF r] by blast
  have s: "cosine_sums v v = (Fin Y, Fin Y, Fin Y)" by (simp add: cosine_sums_split Y(1))
  have "cosineSimilarity (Some v) (Some v) = Fin R"
    using f by (simp add: cosineSimilarity_def s fgt_def)
  then show ?thesis using f(5) by blast
qed

lemma near_one_error: "near 4 1 R \<Longrightarrow> 0 \<le> R \<and> \<bar>R - 1\<bar> \<le> 1 / 2 ^ 50"
proof -
  assume n: "near 4 1 R"
  have "\<bar>R - 1\<bar> \<le> 1 * real 4 / 2 ^ 52" by (rule near_error [OF n]) simp
  then show ?thesis using n by (simp add: near_def)
qed

text \<open>
  Claim C7, as the code has it. Cosine similarity is symmetric. For two arrays of
  different lengths, or when all components of either are zero (zero magnitude), the
  result is exactly 0, and for \<open>undefined\<close> or \<open>null\<close> in either place it is 0 as well;
  the function is total: no input raises. The similarity of a vector to itself is a
  finite number within \<open>2 ^ - 50\<close> of 1 when the vector has a non-zero component and
  every non-zero component has a magnitude between \<open>2 ^ - 200\<close> and \<open>2 ^ 200\<close>, so that
  its squares neither overflow nor underflow.
\<close>

theorem cosineSimilarity_properties:
  "cosineSimilarity a b = cosineSimilarity b a
   \<and> (moderate_vector v \<and> (\<exists>x\<in>set v. x \<noteq> Fin 0)
        \<longrightarrow> finite_nonneg (cosineSimilarity (Some v) (Some v))
            \<and> \<bar>value_of (cosineSimilarity (Some v) (Some v)) - 1\<bar> \<le> 1 / 2 ^ 50)
   \<and> (length p \<noteq> length q \<or> (\<forall>x\<in>set p. x = Fin 0) \<or> (\<forall>x\<in>set q. x = Fin 0)
        \<longrightarrow> cosineSimilarity (Some p) (Some q) = Fin 0)
   \<and> cosineSimilarity None b = Fin 0 \<and> cosineSimilarity a None = Fin 0"
proof (intro conjI impI)
  show "cosineSimilarity a b = cosineSimilarity b a" by (rule cosineSimilarity_commute)
next
  assume h: "moderate_vector v \<and> (\<exists>x\<in>set v. x \<noteq> Fin 0)"
  then obtain R where R: "cosineSimilarity (Some v) (Some v) = Fin R" "near 4 1 R"
    using cosineSimilarity_self by blast
  show "finite_nonneg (cosineSimilarity (Some v) (Some v))"
    using R near_one_error by simp
  show "\<bar>value_of (cosineSimilarity (Some v) (Some v)) - 1\<bar> \<le> 1 / 2 ^ 50"
    using R near_one_error by simp
next
  assume "length p \<noteq> length q \<or> (\<forall>x\<in>set p. x = Fin 0) \<or> (\<forall>x\<in>set q. x = Fin 0)"
  then show "cosineSimilarity (Some p) (Some q) = Fin 0" by (rule cosineSimilarity_zero)
next
  show "cosineSimilarity None b = Fin 0" by (simp add: cosineSimilarity_def)
  show "cosineSimilarity a None = Fin 0" by (simp add: cosineSimilarity_def split: option.splits)
qed

text \<open>The cases of the theorem at concrete vectors.\<close>

lemma cosine_3_4: "cosineSimilarity (Some [Fin 3, Fin 4]) (Some [Fin 3, Fin 4]) = Fin 1"
proof -
  have r: "round64 9 = Fin 9" "round64 16 = Fin 16" "round64 25 = Fin 25" "round64 5 = Fin 5"
    "round64 1 = Fin 1"
    using round64_of_int [of 9] round64_of_int [of 16] round64_of_int [of 25] round64_of_int [of 5]
      round64_of_int [of 1] by simp_all
  have s: "sqrt 25 = 5" using real_sqrt_abs [of 5] by simp
  have u: "[0 ..< 2] = [0, 1]" by (simp add: upt_rec)
  show ?thesis
    by (simp add: cosineSimilarity_def cosine_sums_def u r s fgt_def)
qed

theorem cosineSimilarity_properties_witness:
  "moderate_vector [Fin 3, Fin 4]
   \<and> \<bar>value_of (cosineSimilarity (Some [Fin 3, Fin 4]) (Some [Fin 3, Fin 4])) - 1\<bar> \<le> 1 / 2 ^ 50
   \<and> cosineSimilarity (Some [Fin 3, Fin 4]) (Some [Fin 3, Fin 4]) = Fin 1
   \<and> cosineSimilarity (Some [Fin 1, Fin 2]) (Some [Fin 1, Fin 2, Fin 3]) = Fin 0
   \<and> cosineSimilarity (Some [Fin 0, Fin 0]) (Some [Fin 5, Fin 6]) = Fin 0
   \<and> cosineSimilarity (Some [Fin 5, Fin 6]) (Some [Fin 0, Fin 0]) = Fin 0"
proof -
  have m: "moderate_vector [Fin 3, Fin 4]" by (simp add: moderate_vector_def)
  have "\<bar>value_of (cosineSimilarity (Some [Fin 3, Fin 4]) (Some [Fin 3, Fin 4])) - 1\<bar> \<le> 1 / 2 ^ 50"
    using cosineSimilarity_properties [of None None "[Fin 3, Fin 4]" "[]" "[]"] m by simp
  moreover have "cosineSimilarity (Some [Fin 1, Fin 2]) (Some [Fin 1, Fin 2, Fin 3]) = Fin 0"
    using cosineSimilarity_properties [of None None "[]" "[Fin 1, Fin 2]" "[Fin 1, Fin 2, Fin 3]"] by simp
  moreover have "cosineSimilarity (Some [Fin 0, Fin 0]) (Some [Fin 5, Fin 6]) = Fin 0"
    using cosineSimilarity_properties [of None None "[]" "[Fin 0, Fin 0]" "[Fin 5, Fin 6]"] by simp
  moreover have "cosineSimilarity (Some [Fin 5, Fin 6]) (Some [Fin 0, Fin 0]) = Fin 0"
    using cosineSimilarity_properties [of None None "[]" "[Fin 5, Fin 6]" "[Fin 0, Fin 0]"] by simp
  ultimately show ?thesis using m cosine_3_4 by simp
qed

text \<open>
  Claim C7 as stated fails for the self-similarity of a non-zero vector: that of
  \<open>[2 ^ 600]\<close> is NaN (the square overflows to \<open>Infinity\<close>, and the result is
  \<open>Infinity / Infinity\<close>), and that of \<open>[2 ^ - 600]\<close> is 0 (the square underflows to 0
  and the denominator is not greater than 0).
\<close>

theorem cosine_self_similarity_counterexample:
  "cosineSimilarity (Some [Fin (2 ^ 600)]) (Some [Fin (2 ^ 600)]) = NaN
   \<and> cosineSimilarity (Some [Fin (1 / 2 ^ 600)]) (Some [Fin (1 / 2 ^ 600)]) = Fin 0"
proof -
  have o: "round64 (2 ^ 600 * 2 ^ 600) = PInf"
    by (rule round64_overflow) (simp add: pow2_numeral)
  have u: "round64 (1 / 2 ^ 600 * (1 / 2 ^ 600)) = Fin 0"
    by (rule round64_underflow) (simp add: pow2_neg_numeral)
  have 1: "cosineSimilarity (Some [Fin (2 ^ 600)]) (Some [Fin (2 ^ 600)]) = NaN"
    using o by (simp add: cosineSimilarity_def cosine_sums_def fgt_def)
  have 2: "cosineSimilarity (Some [Fin (1 / 2 ^ 600)]) (Some [Fin (1 / 2 ^ 600)]) = Fin 0"
    using u by (simp add: cosineSimilarity_def cosine_sums_def fgt_def)
  show ?thesis using 1 2 by simp
qed

text \<open>The inequality of Cauchy and Schwarz for sums over a list.\<close>

lemma cauchy_step:
  fixes D A B x y :: real
  assumes "\<bar>D\<bar> \<le> sqrt A * sqrt B" "0 \<le> A" "0 \<le> B"
  shows "\<bar>D + x * y\<bar> \<le> sqrt (A + x * x) * sqrt (B + y * y)"
proof -
  have "\<bar>D + x * y\<bar> \<le> sqrt A * sqrt B + \<bar>x\<bar> * \<bar>y\<bar>"
    using assms(1) by (simp add: abs_mult [symmetric])
  also have "\<dots> \<le> sqrt (A + x * x) * sqrt (B + y * y)"
  proof (rule power2_le_imp_le)
    have s: "2 * (sqrt A * \<bar>y\<bar>) * (sqrt B * \<bar>x\<bar>) \<le> (sqrt A * \<bar>y\<bar>)\<^sup>2 + (sqrt B * \<bar>x\<bar>)\<^sup>2"
      by (rule sum_squares_bound)
    have sa: "(sqrt A)\<^sup>2 = A" and sb: "(sqrt B)\<^sup>2 = B" using assms by simp_all
    have "(sqrt A * sqrt B + \<bar>x\<bar> * \<bar>y\<bar>)\<^sup>2
          = A * B + 2 * (sqrt A * \<bar>y\<bar>) * (sqrt B * \<bar>x\<bar>) + x * x * (y * y)"
      using sa sb by (simp add: power2_eq_square algebra_simps)
    also have "\<dots> \<le> A * B + ((sqrt A * \<bar>y\<bar>)\<^sup>2 + (sqrt B * \<bar>x\<bar>)\<^sup>2) + x * x * (y * y)"
      using s by simp
    also have "\<dots> = (A + x * x) * (B + y * y)"
      using sa sb by (simp add: power_mult_distrib power2_eq_square algebra_simps)
    also have "\<dots> = (sqrt (A + x * x) * sqrt (B + y * y))\<^sup>2"
      using assms by (simp add: power_mult_distrib)
    finally show "(sqrt A * sqrt B + \<bar>x\<bar> * \<bar>y\<bar>)\<^sup>2 \<le> (sqrt (A + x * x) * sqrt (B + y * y))\<^sup>2" .
    show "0 \<le> sqrt (A + x * x) * sqrt (B + y * y)" using assms by simp
  qed
  finally show ?thesis .
qed

lemma cauchy_sum_list:
  fixes f g :: "'a \<Rightarrow> real"
  shows "\<bar>\<Sum>i\<leftarrow>xs. f i * g i\<bar> \<le> sqrt (\<Sum>i\<leftarrow>xs. f i * f i) * sqrt (\<Sum>i\<leftarrow>xs. g i * g i)"
proof (induction xs)
  case Nil
  show ?case by simp
next
  case (Cons x xs)
  have n: "0 \<le> (\<Sum>i\<leftarrow>xs. f i * f i)" "0 \<le> (\<Sum>i\<leftarrow>xs. g i * g i)"
    by (auto intro!: sum_list_nonneg)
  have "\<bar>(\<Sum>i\<leftarrow>xs. f i * g i) + f x * g x\<bar>
      \<le> sqrt ((\<Sum>i\<leftarrow>xs. f i * f i) + f x * f x) * sqrt ((\<Sum>i\<leftarrow>xs. g i * g i) + g x * g x)"
    using Cons n by (rule cauchy_step)
  then show ?case by (simp add: add.commute)
qed

lemma moderate_nonneg_cases:
  assumes "moderate d" "finite_nonneg d"
  obtains "d = Fin 0" | r where "d = Fin r" "1 / 2 ^ 200 \<le> r" "r \<le> 2 ^ 200"
  using assms by (cases d) (auto simp: abs_if split: if_splits)

lemma moderate_product:
  assumes "moderate c" "finite_nonneg c" "moderate d" "finite_nonneg d"
  shows "value_of c * value_of d = 0 \<or> 1 / 2 ^ 400 \<le> value_of c * value_of d"
    and "value_of c * value_of d \<le> 2 ^ 400"
    and "\<exists>T. fmul c d = Fin T \<and> near 1 (value_of c * value_of d) T"
proof -
  have v: "0 \<le> value_of c" "value_of c \<le> 2 ^ 200" "value_of c = 0 \<or> 1 / 2 ^ 200 \<le> value_of c"
    using assms(1,2) by (cases rule: moderate_nonneg_cases; simp)+
  have w: "0 \<le> value_of d" "value_of d \<le> 2 ^ 200" "value_of d = 0 \<or> 1 / 2 ^ 200 \<le> value_of d"
    using assms(3,4) by (cases rule: moderate_nonneg_cases; simp)+
  have "value_of c * value_of d \<le> 2 ^ 200 * 2 ^ 200" using v w by (intro mult_mono) simp_all
  then show u: "value_of c * value_of d \<le> 2 ^ 400" by simp
  show l: "value_of c * value_of d = 0 \<or> 1 / 2 ^ 400 \<le> value_of c * value_of d"
  proof (cases "value_of c = 0 \<or> value_of d = 0")
    case True then show ?thesis by auto
  next
    case False
    then have "1 / 2 ^ 200 \<le> value_of c" "1 / 2 ^ 200 \<le> value_of d" using v w by auto
    then have "(1 / 2 ^ 200) * (1 / 2 ^ 200) \<le> value_of c * value_of d" by (intro mult_mono) simp_all
    then show ?thesis by simp
  qed
  obtain x y where xy: "c = Fin x" "d = Fin y"
    using assms(2,4) by (cases c; cases d) auto
  have "(1 :: real) / 2 ^ 1000 \<le> 1 / 2 ^ 400" "(2 :: real) ^ 400 \<le> 2 ^ 1000" by simp_all
  then have ir: "in_range (x * y)" using u l unfolding in_range_def xy by auto
  have nx: "near 0 x x" and ny: "near 0 y y" using v(1) w(1) by (auto simp: xy intro: near_refl)
  have "\<exists>T. fmul (Fin x) (Fin y) = Fin T \<and> near (Suc (0 + 0)) (x * y) T"
    by (rule fmul_near [OF nx ny _ ir]) simp
  then show "\<exists>T. fmul c d = Fin T \<and> near 1 (value_of c * value_of d) T" by (simp add: xy)
qed

text \<open>The dot product of two vectors of moderate components that are not negative.\<close>

lemma products_near:
  assumes l: "length a = length b" and ma: "moderate_vector a" and mb: "moderate_vector b"
    and na: "list_all finite_nonneg a" and nb: "list_all finite_nonneg b"
  shows "\<exists>Y. foldl (\<lambda>s i. fadd s (fmul (a ! i) (b ! i))) (Fin 0) [0 ..< length a] = Fin Y
     \<and> near (Suc (length a)) (\<Sum>i\<leftarrow>[0 ..< length a]. value_of (a ! i) * value_of (b ! i)) Y
     \<and> ((\<Sum>i\<leftarrow>[0 ..< length a]. value_of (a ! i) * value_of (b ! i)) = 0
          \<or> 1 / 2 ^ 400 \<le> (\<Sum>i\<leftarrow>[0 ..< length a]. value_of (a ! i) * value_of (b ! i)))"
proof -
  let ?t = "\<lambda>i. value_of (a ! i) * value_of (b ! i)"
  have len: "length a < 2 ^ 32" using ma by (simp add: moderate_vector_def)
  have p: "moderate (a ! i) \<and> finite_nonneg (a ! i) \<and> moderate (b ! i) \<and> finite_nonneg (b ! i)"
    if "i \<in> set [0 ..< length a]" for i
  proof -
    have i: "i < length a" "i < length b" using that l by simp_all
    have "a ! i \<in> set a" "b ! i \<in> set b" using i by simp_all
    then show ?thesis using ma mb na nb by (simp add: moderate_vector_def list_all_iff)
  qed
  have t0: "0 \<le> ?t i" if "i \<in> set [0 ..< length a]" for i
    using p [OF that] by (cases "a ! i"; cases "b ! i") simp_all
  have t_hi: "?t i \<le> 2 ^ 400" if i: "i \<in> set [0 ..< length a]" for i
    using p [OF i] by (intro moderate_product(2)) simp_all
  have t_lo: "?t i = 0 \<or> 1 / 2 ^ 400 \<le> ?t i" if i: "i \<in> set [0 ..< length a]" for i
    using p [OF i] by (intro moderate_product(1)) simp_all
  have t_near: "\<exists>T. fmul (a ! i) (b ! i) = Fin T \<and> near 1 (?t i) T" if i: "i \<in> set [0 ..< length a]" for i
    using p [OF i] by (intro moderate_product(3)) simp_all
  have "(\<Sum>i\<leftarrow>[0 ..< length a]. ?t i) \<le> real (length [0 ..< length a]) * 2 ^ 400"
    by (rule sum_list_le_length) (rule t_hi)
  also have "\<dots> \<le> 2 ^ 32 * 2 ^ 400"
  proof -
    have "real (length a) \<le> 2 ^ 32" using len by (metis less_imp_le of_nat_le_iff of_nat_numeral of_nat_power)
    then show ?thesis by (simp add: mult_right_mono)
  qed
  finally have up: "(\<Sum>i\<leftarrow>[0 ..< length a]. ?t i) \<le> 2 ^ 432" by simp
  have "\<exists>Y. foldl (\<lambda>acc i. fadd acc (fmul (a ! i) (b ! i))) (Fin 0) [0 ..< length a] = Fin Y
             \<and> near (max 0 1 + length [0 ..< length a]) (0 + (\<Sum>i\<leftarrow>[0 ..< length a]. ?t i)) Y"
  proof (rule fold_fadd_near)
    fix i assume i: "i \<in> set [0 ..< length a]"
    show "\<exists>T. fmul (a ! i) (b ! i) = Fin T \<and> near 1 (?t i) T"
      using i by (rule t_near)
    have "(1 :: real) / 2 ^ 1000 \<le> 1 / 2 ^ 400" by simp
    then show "?t i = 0 \<or> 1 / 2 ^ 1000 \<le> ?t i"
      using t_lo [OF i] by linarith
  next
    show "near 0 0 0" by (simp add: near_def)
    show "(0 :: real) = 0 \<or> 1 / 2 ^ 1000 \<le> (0 :: real)" by simp
    have "(2 :: real) ^ 432 \<le> 2 ^ 1000" by simp
    then show "0 + (\<Sum>i\<leftarrow>[0 ..< length a]. ?t i) \<le> 2 ^ 1000" using up by simp
    have "1 + length a \<le> 1 + 2 ^ 32" using len by simp
    also have "\<dots> \<le> (2 :: nat) ^ 52" by simp
    finally show "max 0 1 + length [0 ..< length a] \<le> 2 ^ 52" by simp
  qed
  then obtain Y where Y: "foldl (\<lambda>acc i. fadd acc (fmul (a ! i) (b ! i))) (Fin 0) [0 ..< length a] = Fin Y"
      "near (Suc (length a)) (\<Sum>i\<leftarrow>[0 ..< length a]. ?t i) Y"
    by auto
  have low: "(\<Sum>i\<leftarrow>[0 ..< length a]. ?t i) = 0 \<or> 1 / 2 ^ 400 \<le> (\<Sum>i\<leftarrow>[0 ..< length a]. ?t i)"
  proof (cases "\<exists>i\<in>set [0 ..< length a]. ?t i \<noteq> 0")
    case False
    then have "map ?t [0 ..< length a] = map (\<lambda>i. 0) [0 ..< length a]"
      by (intro map_cong) simp_all
    then have "sum_list (map ?t [0 ..< length a]) = 0" by (simp only:) simp
    then show ?thesis by simp
  next
    case True
    then obtain i where i: "i \<in> set [0 ..< length a]" "?t i \<noteq> 0" by blast
    have "1 / 2 ^ 400 \<le> ?t i" using t_lo [OF i(1)] i(2) by simp
    also have "?t i \<le> sum_list (map ?t [0 ..< length a])"
      by (rule member_le_sum_list_real) (use i(1) t0 in auto)
    finally show ?thesis by simp
  qed
  show ?thesis using Y low by blast
qed

lemma sum_list_index:
  "(\<Sum>i\<leftarrow>[0 ..< length v]. f (v ! i)) = (\<Sum>d\<leftarrow>v. f d)"
proof -
  have "map (\<lambda>i. f (v ! i)) [0 ..< length v] = map f (map (\<lambda>i. v ! i) [0 ..< length v])"
    by simp
  also have "\<dots> = map f v" by (simp only: map_nth)
  finally show ?thesis by simp
qed

text \<open>The similarity of two vectors of moderate components that are not negative is a
  finite number between 0 and 1, up to the roundings of the computation.\<close>

lemma cosine_moderate:
  assumes l: "length a = length b" and ma: "moderate_vector a" and mb: "moderate_vector b"
    and na: "list_all finite_nonneg a" and nb: "list_all finite_nonneg b"
  shows "\<exists>s. cosineSimilarity (Some a) (Some b) = Fin s \<and> 0 \<le> s \<and> s \<le> 1 + 1 / 2 ^ 18"
proof (cases "(\<forall>x\<in>set a. x = Fin 0) \<or> (\<forall>x\<in>set b. x = Fin 0)")
  case True
  then have "cosineSimilarity (Some a) (Some b) = Fin 0" by (intro cosineSimilarity_zero) blast
  then show ?thesis by simp
next
  case False
  then have nza: "\<exists>x\<in>set a. x \<noteq> Fin 0" and nzb: "\<exists>x\<in>set b. x \<noteq> Fin 0" by blast+
  let ?n = "length a"
  let ?va = "\<lambda>i. value_of (a ! i)" and ?vb = "\<lambda>i. value_of (b ! i)"
  define D where "D = (\<Sum>i\<leftarrow>[0 ..< ?n]. ?va i * ?vb i)"
  define A where "A = (\<Sum>d\<leftarrow>a. value_of d * value_of d)"
  define B where "B = (\<Sum>d\<leftarrow>b. value_of d * value_of d)"
  have len: "?n < 2 ^ 32" using ma by (simp add: moderate_vector_def)
  obtain Yd where Yd: "foldl (\<lambda>s i. fadd s (fmul (a ! i) (b ! i))) (Fin 0) [0 ..< ?n] = Fin Yd"
      "near (Suc ?n) D Yd" "D = 0 \<or> 1 / 2 ^ 400 \<le> D"
    using products_near [OF l ma mb na nb] unfolding D_def by blast
  obtain Ya where Ya: "foldl (\<lambda>s i. fadd s (fmul (a ! i) (a ! i))) (Fin 0) [0 ..< ?n] = Fin Ya"
      "near (Suc ?n) A Ya" "A \<le> 2 ^ 432" "1 / 2 ^ 400 \<le> A"
    using squares_near [OF ma] nza unfolding A_def by blast
  obtain Yb where Yb: "foldl (\<lambda>s i. fadd s (fmul (b ! i) (b ! i))) (Fin 0) [0 ..< ?n] = Fin Yb"
      "near (Suc ?n) B Yb" "B \<le> 2 ^ 432" "1 / 2 ^ 400 \<le> B"
    using squares_near [OF mb] nzb unfolding B_def l by blast
  have sums: "cosine_sums a b = (Fin Yd, Fin Ya, Fin Yb)"
    by (simp only: cosine_sums_split Yd(1) Ya(1) Yb(1))
  have k1: "Suc ?n \<le> 2 ^ 52"
  proof -
    have "Suc ?n \<le> 2 ^ 32" using len by simp
    also have "\<dots> \<le> (2 :: nat) ^ 52" by simp
    finally show ?thesis .
  qed
  \<comment> \<open>the two roots and the denominator\<close>
  have rA: "in_range A" and rB: "in_range B"
  proof -
    have "(1 :: real) / 2 ^ 1000 \<le> 1 / 2 ^ 400" "(2 :: real) ^ 432 \<le> 2 ^ 1000" by simp_all
    then show "in_range A" "in_range B" using Ya(3,4) Yb(3,4) unfolding in_range_def by linarith+
  qed
  have "\<exists>x. fsqrt (Fin Ya) = Fin x \<and> near (Suc (Suc ?n)) (sqrt A) x"
    by (rule fsqrt_near [OF Ya(2) k1 in_range_sqrt [OF rA]])
  then obtain sa where sa: "fsqrt (Fin Ya) = Fin sa" "near (Suc (Suc ?n)) (sqrt A) sa" by blast
  have "\<exists>x. fsqrt (Fin Yb) = Fin x \<and> near (Suc (Suc ?n)) (sqrt B) x"
    by (rule fsqrt_near [OF Yb(2) k1 in_range_sqrt [OF rB]])
  then obtain sb where sb: "fsqrt (Fin Yb) = Fin sb" "near (Suc (Suc ?n)) (sqrt B) sb" by blast
  define N where "N = sqrt A * sqrt B"
  have Apos: "0 < A" using Ya(4) by (rule less_le_trans [rotated]) simp
  have Bpos: "0 < B" using Yb(4) by (rule less_le_trans [rotated]) simp
  have N_lo: "1 / 2 ^ 400 \<le> N"
  proof -
    have "(1 / 2 ^ 200) * (1 / 2 ^ 200) \<le> sqrt A * sqrt B"
    proof (rule mult_mono)
      have "sqrt ((1 / 2 ^ 200)\<^sup>2) \<le> sqrt A" using Ya(4) by (intro real_sqrt_le_mono) (simp add: power2_eq_square)
      then show "1 / 2 ^ 200 \<le> sqrt A" by simp
      have "sqrt ((1 / 2 ^ 200)\<^sup>2) \<le> sqrt B" using Yb(4) by (intro real_sqrt_le_mono) (simp add: power2_eq_square)
      then show "1 / 2 ^ 200 \<le> sqrt B" by simp
    qed (use Apos Bpos in simp_all)
    then show ?thesis by (simp add: N_def)
  qed
  have N_hi: "N \<le> 2 ^ 432"
  proof -
    have "sqrt A * sqrt B \<le> 2 ^ 216 * 2 ^ 216"
    proof (rule mult_mono)
      have "A \<le> (2 ^ 216)\<^sup>2" using Ya(3) by (simp add: power2_eq_square)
      then have "sqrt A \<le> sqrt ((2 ^ 216)\<^sup>2)" by (rule real_sqrt_le_mono)
      then show "sqrt A \<le> 2 ^ 216" by simp
      have "B \<le> (2 ^ 216)\<^sup>2" using Yb(3) by (simp add: power2_eq_square)
      then have "sqrt B \<le> sqrt ((2 ^ 216)\<^sup>2)" by (rule real_sqrt_le_mono)
      then show "sqrt B \<le> 2 ^ 216" by simp
    qed (use Apos Bpos in simp_all)
    then show ?thesis by (simp add: N_def)
  qed
  have Npos: "0 < N" using N_lo by (rule less_le_trans [rotated]) simp
  have rN: "in_range (sqrt A * sqrt B)"
  proof -
    have "(1 :: real) / 2 ^ 1000 \<le> 1 / 2 ^ 400" "(2 :: real) ^ 432 \<le> 2 ^ 1000" by simp_all
    then show ?thesis using N_lo N_hi unfolding in_range_def N_def by linarith
  qed
  have k2: "Suc (Suc ?n) + Suc (Suc ?n) \<le> 2 ^ 52"
  proof -
    have "Suc (Suc ?n) + Suc (Suc ?n) \<le> 2 ^ 32 + 2 ^ 32 + 2" using len by simp
    also have "\<dots> \<le> (2 :: nat) ^ 52" by simp
    finally show ?thesis .
  qed
  have "\<exists>x. fmul (Fin sa) (Fin sb) = Fin x \<and> near (Suc (Suc (Suc ?n) + Suc (Suc ?n))) (sqrt A * sqrt B) x"
    by (rule fmul_near [OF sa(2) sb(2) k2 rN])
  then obtain dn where dn: "fmul (Fin sa) (Fin sb) = Fin dn"
      "near (Suc (Suc (Suc ?n) + Suc (Suc ?n))) N dn"
    unfolding N_def by blast
  have dn0: "dn \<noteq> 0" using dn(2) Npos near_zero_right [of _ N] by auto
  then have dnpos: "0 < dn" using dn(2) by (simp add: near_def)
  \<comment> \<open>the quotient\<close>
  have D0: "0 \<le> D" using Yd(2) by (simp add: near_def)
  have cs: "D \<le> N"
  proof -
    have "\<bar>\<Sum>i\<leftarrow>[0 ..< ?n]. ?va i * ?vb i\<bar>
        \<le> sqrt (\<Sum>i\<leftarrow>[0 ..< ?n]. ?va i * ?va i) * sqrt (\<Sum>i\<leftarrow>[0 ..< ?n]. ?vb i * ?vb i)"
      by (rule cauchy_sum_list)
    moreover have "(\<Sum>i\<leftarrow>[0 ..< ?n]. ?va i * ?va i) = A"
      unfolding A_def by (rule sum_list_index [of "\<lambda>d. value_of d * value_of d" a])
    moreover have "(\<Sum>i\<leftarrow>[0 ..< ?n]. ?vb i * ?vb i) = B"
      unfolding B_def l by (rule sum_list_index [of "\<lambda>d. value_of d * value_of d" b])
    ultimately show ?thesis by (simp add: D_def N_def)
  qed
  define q where "q = D / N"
  have q1: "q \<le> 1" and q0: "0 \<le> q" using cs D0 Npos by (simp_all add: q_def)
  have rq: "in_range (D / N)"
  proof (cases "D = 0")
    case True then show ?thesis by (simp add: in_range_def)
  next
    case False
    then have "1 / 2 ^ 400 \<le> D" using Yd(3) by simp
    then have "(1 / 2 ^ 400) / 2 ^ 432 \<le> D / 2 ^ 432" by (intro divide_right_mono) simp_all
    also have "\<dots> \<le> D / N" using N_hi Npos D0 by (intro divide_left_mono) simp_all
    finally have "1 / 2 ^ 832 \<le> q" by (simp add: q_def)
    moreover have "(1 :: real) / 2 ^ 1000 \<le> 1 / 2 ^ 832" "(1 :: real) \<le> 2 ^ 1000" by simp_all
    ultimately show ?thesis using q1 unfolding in_range_def q_def by linarith
  qed
  define k where "k = Suc (Suc ?n + Suc (Suc (Suc ?n) + Suc (Suc ?n)))"
  have k3: "Suc ?n + Suc (Suc (Suc ?n) + Suc (Suc ?n)) \<le> 2 ^ 52"
  proof -
    have "Suc ?n + Suc (Suc (Suc ?n) + Suc (Suc ?n)) \<le> 2 ^ 32 + 2 ^ 32 + 2 ^ 32 + 6" using len by simp
    also have "\<dots> \<le> (2 :: nat) ^ 52" by simp
    finally show ?thesis .
  qed
  have "\<exists>s. fdiv (Fin Yd) (Fin dn) = Fin s \<and> near (Suc (Suc ?n + Suc (Suc (Suc ?n) + Suc (Suc ?n)))) (D / N) s"
    by (rule fdiv_near [OF Yd(2) dn(2) k3 rq Npos])
  then obtain s where s: "fdiv (Fin Yd) (Fin dn) = Fin s" "near k q s"
    unfolding k_def q_def by blast
  have kk: "k \<le> 2 ^ 34"
  proof -
    have "k \<le> 2 ^ 32 + 2 ^ 32 + 2 ^ 32 + 7" using len by (simp add: k_def)
    also have "\<dots> \<le> (2 :: nat) ^ 34" by simp
    finally show ?thesis .
  qed
  have kk52: "k \<le> 2 ^ 52"
  proof -
    have "(2 :: nat) ^ 34 \<le> 2 ^ 52" by simp
    then show ?thesis using kk by linarith
  qed
  have rk: "real k \<le> 2 ^ 34" using kk by (metis of_nat_le_iff of_nat_numeral of_nat_power)
  have "\<bar>s - q\<bar> \<le> q * real k / 2 ^ 52" by (rule near_error [OF s(2) kk52])
  also have "\<dots> \<le> 1 * 2 ^ 34 / 2 ^ 52"
    using q0 q1 rk by (intro divide_right_mono mult_mono) simp_all
  also have "\<dots> = 1 / 2 ^ 18" by simp
  finally have "s \<le> q + 1 / 2 ^ 18" by linarith
  then have s_hi: "s \<le> 1 + 1 / 2 ^ 18" using q1 by linarith
  have s_lo: "0 \<le> s" using s(2) by (simp add: near_def)
  have "cosineSimilarity (Some a) (Some b) = Fin s"
    using dnpos by (simp add: cosineSimilarity_def l sums sa(1) sb(1) dn(1) s(1) fgt_def del: fsqrt.simps fmul.simps fdiv.simps)
  then show ?thesis using s_lo s_hi by blast
qed

text \<open>Without negative components, no negative similarity.\<close>

lemma round64_nonneg: "0 \<le> x \<Longrightarrow> nonneg_or_inf (round64 x)"
  using rnd_nonneg [of x] by (simp add: round64_rnd)

lemma fadd_nonneg: "nonneg_or_inf a \<Longrightarrow> nonneg_or_inf b \<Longrightarrow> nonneg_or_inf (fadd a b)"
  by (cases a; cases b) (simp_all add: round64_nonneg)

lemma fmul_nonneg: "finite_nonneg a \<Longrightarrow> finite_nonneg b \<Longrightarrow> nonneg_or_inf (fmul a b)"
  by (cases a; cases b) (simp_all add: round64_nonneg)

lemma foldl_fadd_nonneg:
  assumes "nonneg_or_inf s" "\<And>i. i \<in> set xs \<Longrightarrow> nonneg_or_inf (g i)"
  shows "nonneg_or_inf (foldl (\<lambda>s i. fadd s (g i)) s xs)"
  using assms by (induction xs arbitrary: s) (simp_all add: fadd_nonneg)

lemma fdiv_not_negative:
  assumes "nonneg_or_inf d" "fgt den (Fin 0)"
  shows "\<not> fless (fdiv d den) (Fin 0)"
proof (cases d)
  case (Fin y)
  then have y: "0 \<le> y" using assms(1) by simp
  show ?thesis
  proof (cases den)
    case (Fin z)
    then have z: "0 < z" using assms(2) by (simp add: fgt_def)
    have "nonneg_or_inf (round64 (y / z))" using y z by (intro round64_nonneg) simp
    then show ?thesis using z by (cases "round64 (y / z)") (simp_all add: \<open>d = Fin y\<close> Fin)
  qed (use assms(2) \<open>d = Fin y\<close> in \<open>simp_all add: fgt_def\<close>)
next
  case PInf
  then show ?thesis using assms(2) by (cases den) (simp_all add: fgt_def)
qed (use assms(1) in simp_all)

lemma cosine_not_negative:
  assumes "nonneg_embedding a" "nonneg_embedding b"
  shows "\<not> fless (cosineSimilarity a b) (Fin 0)"
proof (cases "\<exists>p q. a = Some p \<and> b = Some q \<and> length p = length q")
  case False
  then have "cosineSimilarity a b = Fin 0"
    by (auto simp: cosineSimilarity_def split: option.splits)
  then show ?thesis by simp
next
  case True
  then obtain p q where pq: "a = Some p" "b = Some q" "length p = length q" by blast
  have np: "list_all finite_nonneg p" and nq: "list_all finite_nonneg q"
    using assms by (simp_all add: nonneg_embedding_def pq)
  obtain d na nb where s: "cosine_sums p q = (d, na, nb)" by (cases "cosine_sums p q") auto
  have "nonneg_or_inf (foldl (\<lambda>s i. fadd s (fmul (p ! i) (q ! i))) (Fin 0) [0 ..< length p])"
  proof (rule foldl_fadd_nonneg)
    show "nonneg_or_inf (Fin 0)" by simp
    fix i assume "i \<in> set [0 ..< length p]"
    then have "p ! i \<in> set p" "q ! i \<in> set q" using pq(3) by simp_all
    then show "nonneg_or_inf (fmul (p ! i) (q ! i))"
      using np nq by (intro fmul_nonneg) (simp_all add: list_all_iff)
  qed
  then have d: "nonneg_or_inf d" using s by (simp add: cosine_sums_split)
  show ?thesis
    using fdiv_not_negative [OF d]
    by (simp add: cosineSimilarity_def pq s Let_def)
qed


section \<open>Properties of the offline embedding\<close>

lemma bucket_less: "bucket w < 384"
  by (simp add: bucket_def)

lemma length_foldl_preserved:
  assumes "\<And>e p. length (g e p) = length e"
  shows "length (foldl g e ps) = length e"
  using assms by (induction ps arbitrary: e) auto

lemma length_accumulate: "length (accumulate ws) = 384"
  unfolding accumulate_def
  by (subst length_foldl_preserved) (auto simp: Let_def)

lemma accumulate_snoc:
  "accumulate (ws @ [w]) =
     (accumulate ws)[bucket w := fadd (accumulate ws ! bucket w) (position_weight (length ws))]"
  by (simp add: accumulate_def enumerate_append_eq Let_def position_weight_def)

text \<open>The positions of the tokens that fall into bucket \<open>j\<close>.\<close>

lemma bucket_positions_snoc:
  "filter (\<lambda>idx. bucket ((ws @ [w]) ! idx) = j) [0 ..< length (ws @ [w])]
     = filter (\<lambda>idx. bucket (ws ! idx) = j) [0 ..< length ws] @ (if bucket w = j then [length ws] else [])"
proof -
  have "filter (\<lambda>idx. bucket ((ws @ [w]) ! idx) = j) [0 ..< length ws]
      = filter (\<lambda>idx. bucket (ws ! idx) = j) [0 ..< length ws]"
    by (rule filter_cong) (simp_all add: nth_append)
  then show ?thesis by simp
qed

lemma accumulate_nth:
  "j < 384 \<Longrightarrow>
   accumulate ws ! j =
     foldl fadd (Fin 0)
       (map position_weight (filter (\<lambda>idx. bucket (ws ! idx) = j) [0 ..< length ws]))"
proof (induction ws rule: rev_induct)
  case Nil
  then show ?case by (simp add: accumulate_def)
next
  case (snoc w ws)
  show ?case
    unfolding bucket_positions_snoc accumulate_snoc
    using snoc by (simp add: nth_list_update length_accumulate bucket_less)
qed

lemma near_literal:
  assumes "1 / 2 ^ 1000 \<le> x" "x \<le> 2 ^ 1000"
  shows "\<exists>y. round64 x = Fin y \<and> near 1 x y"
proof -
  have "near 0 x x" using assms(1) by (intro near_refl) (meson order_trans zero_le_divide_1_iff zero_le_numeral zero_le_power)
  then have "\<exists>Y. round64 x = Fin Y \<and> near (Suc 0) x Y"
    by (rule round_near) (use assms in \<open>simp_all add: in_range_def\<close>)
  then show ?thesis by simp
qed

lemma double_of_nat_exact: "n \<le> 2 ^ 53 \<Longrightarrow> double_of_nat n = Fin (real n)"
proof -
  assume "n \<le> 2 ^ 53"
  then have "\<bar>int n\<bar> \<le> 2 ^ 53" by (metis abs_of_nat of_nat_le_iff of_nat_numeral of_nat_power)
  then show ?thesis using round64_of_int [of "int n"] by (simp add: double_of_nat_def)
qed

text \<open>The weight of a position is \<open>1 / (1 + idx / 10)\<close> up to 4 roundings.\<close>

lemma position_weight_near:
  assumes "idx < 2 ^ 32"
  shows "\<exists>w. position_weight idx = Fin w \<and> near 4 (1 / (1 + real idx / 10)) w"
proof -
  have i32: "real idx \<le> 2 ^ 32"
    using assms by (metis less_imp_le of_nat_le_iff of_nat_numeral of_nat_power)
  have "idx \<le> 2 ^ 53"
  proof -
    have "idx \<le> 2 ^ 32" using assms by simp
    also have "\<dots> \<le> (2 :: nat) ^ 53" by simp
    finally show ?thesis .
  qed
  then have d: "double_of_nat idx = Fin (real idx)" by (rule double_of_nat_exact)
  obtain c where c: "round64 (1 / 10) = Fin c" "near 1 (1 / 10) c"
    using near_literal [of "1 / 10"] by auto
  have ni: "near 0 (real idx) (real idx)" by (rule near_refl) simp
  have r1: "in_range (real idx * (1 / 10))"
  proof (cases "idx = 0")
    case True then show ?thesis by (simp add: in_range_def)
  next
    case False
    then have "1 \<le> real idx" by simp
    then have "1 / 10 \<le> real idx * (1 / 10)" by simp
    moreover have "(1 :: real) / 2 ^ 1000 \<le> 1 / 10" by simp
    moreover have "real idx * (1 / 10) \<le> 2 ^ 32" using i32 by simp
    moreover have "(2 :: real) ^ 32 \<le> 2 ^ 1000" by simp
    ultimately show ?thesis unfolding in_range_def by linarith
  qed
  have "\<exists>t. fmul (Fin (real idx)) (Fin c) = Fin t \<and> near (Suc (0 + 1)) (real idx * (1 / 10)) t"
    by (rule fmul_near [OF ni c(2) _ r1]) simp
  then obtain t where t: "fmul (Fin (real idx)) (Fin c) = Fin t" "near 2 (real idx * (1 / 10)) t"
    by (auto simp: numeral_2_eq_2)
  have n1: "near 0 1 1" by (rule near_refl) simp
  have r2: "in_range (1 + real idx * (1 / 10))"
  proof -
    have "1 \<le> 1 + real idx * (1 / 10)" by simp
    moreover have "(1 :: real) / 2 ^ 1000 \<le> 1" by simp
    moreover have "1 + real idx * (1 / 10) \<le> 1 + 2 ^ 32" using i32 by simp
    moreover have "1 + (2 :: real) ^ 32 \<le> 2 ^ 1000" by simp
    ultimately show ?thesis unfolding in_range_def by linarith
  qed
  have "\<exists>s. fadd (Fin 1) (Fin t) = Fin s \<and> near (Suc (max 0 2)) (1 + real idx * (1 / 10)) s"
    by (rule fadd_near [OF n1 t(2) _ _ r2]) simp_all
  then obtain s where s: "fadd (Fin 1) (Fin t) = Fin s" "near 3 (1 + real idx * (1 / 10)) s"
    by (auto simp: numeral_3_eq_3)
  have pos: "0 < 1 + real idx * (1 / 10)" by (simp add: add_pos_nonneg)
  have r3: "in_range (1 / (1 + real idx * (1 / 10)))"
  proof -
    have "1 / (1 + real idx * (1 / 10)) \<le> 1" using pos by simp
    moreover have "1 / (1 + 2 ^ 32) \<le> 1 / (1 + real idx * (1 / 10))"
      using i32 pos by (intro divide_left_mono) simp_all
    moreover have "(1 :: real) / 2 ^ 1000 \<le> 1 / (1 + 2 ^ 32)" by simp
    moreover have "(1 :: real) \<le> 2 ^ 1000" by simp
    ultimately show ?thesis unfolding in_range_def by linarith
  qed
  have "\<exists>w. fdiv (Fin 1) (Fin s) = Fin w \<and> near (Suc (0 + 3)) (1 / (1 + real idx * (1 / 10))) w"
    by (rule fdiv_near [OF n1 s(2) _ r3 pos]) simp
  then obtain w where w: "fdiv (Fin 1) (Fin s) = Fin w" "near 4 (1 / (1 + real idx * (1 / 10))) w"
    by (auto simp: eval_nat_numeral)
  have "position_weight idx = Fin w"
    unfolding position_weight_def d c(1) t(1) s(1) by (rule w(1))
  then show ?thesis using w(2) by auto
qed

lemma exact_weight_bounds:
  assumes "idx < 2 ^ 32"
  shows "1 / 2 ^ 29 \<le> 1 / (1 + real idx / 10)" and "1 / (1 + real idx / 10) \<le> 1"
proof -
  have i32: "real idx \<le> 2 ^ 32"
    using assms by (metis less_imp_le of_nat_le_iff of_nat_numeral of_nat_power)
  have pos: "0 < 1 + real idx / 10" by (simp add: add_pos_nonneg)
  have "1 + real idx / 10 \<le> 2 ^ 29" using i32 by simp
  then show "1 / 2 ^ 29 \<le> 1 / (1 + real idx / 10)" using pos by (intro divide_left_mono) simp_all
  show "1 / (1 + real idx / 10) \<le> 1" using pos by simp
qed

text \<open>An entry of the accumulated vector: zero when no token falls into its bucket, and
  otherwise the exact sum of the weights up to one rounding for each weight and 4 more.\<close>

lemma accumulate_entry:
  assumes len: "length ws < 2 ^ 32" and j: "j < 384"
  defines "ps \<equiv> filter (\<lambda>idx. bucket (ws ! idx) = j) [0 ..< length ws]"
  shows "\<exists>e. accumulate ws ! j = Fin e
     \<and> near (4 + length ps) (\<Sum>idx\<leftarrow>ps. 1 / (1 + real idx / 10)) e
     \<and> (ps = [] \<longrightarrow> e = 0)
     \<and> (ps \<noteq> [] \<longrightarrow> 1 / 2 ^ 30 \<le> e \<and> e \<le> 2 ^ 33)"
proof -
  let ?t = "\<lambda>idx. 1 / (1 + real idx / 10)"
  have mem: "idx < 2 ^ 32" if "idx \<in> set ps" for idx
    using that len by (auto simp: ps_def)
  have lps: "length ps \<le> length ws"
    unfolding ps_def using length_filter_le [of _ "[0 ..< length ws]"] by simp
  have lps32: "real (length ps) \<le> 2 ^ 32"
  proof -
    have "length ps \<le> 2 ^ 32" using lps len by simp
    then show ?thesis by (metis of_nat_le_iff of_nat_numeral of_nat_power)
  qed
  have up: "(\<Sum>idx\<leftarrow>ps. ?t idx) \<le> real (length ps) * 1"
    by (rule sum_list_le_length) (use mem exact_weight_bounds(2) in blast)
  have "\<exists>Y. foldl (\<lambda>acc x. fadd acc (position_weight x)) (Fin 0) ps = Fin Y
             \<and> near (max 0 4 + length ps) (0 + (\<Sum>idx\<leftarrow>ps. ?t idx)) Y"
  proof (rule fold_fadd_near)
    fix idx assume i: "idx \<in> set ps"
    show "\<exists>T. position_weight idx = Fin T \<and> near 4 (?t idx) T"
      using position_weight_near [OF mem [OF i]] .
    have "(1 :: real) / 2 ^ 1000 \<le> 1 / 2 ^ 29" by simp
    then show "?t idx = 0 \<or> 1 / 2 ^ 1000 \<le> ?t idx"
      using exact_weight_bounds(1) [OF mem [OF i]] by linarith
  next
    show "near 0 0 0" by (simp add: near_def)
    show "(0 :: real) = 0 \<or> 1 / 2 ^ 1000 \<le> (0 :: real)" by simp
    have "(2 :: real) ^ 32 \<le> 2 ^ 1000" by simp
    then show "0 + (\<Sum>idx\<leftarrow>ps. ?t idx) \<le> 2 ^ 1000" using up lps32 by simp
    have "4 + length ps \<le> 4 + 2 ^ 32" using lps len by simp
    also have "\<dots> \<le> (2 :: nat) ^ 52" by simp
    finally show "max 0 4 + length ps \<le> 2 ^ 52" by simp
  qed
  then obtain e where e: "foldl (\<lambda>acc x. fadd acc (position_weight x)) (Fin 0) ps = Fin e"
      "near (4 + length ps) (\<Sum>idx\<leftarrow>ps. ?t idx) e"
    by auto
  have a: "accumulate ws ! j = Fin e"
    using e(1) by (simp add: accumulate_nth [OF j] ps_def [symmetric] foldl_map)
  have z: "e = 0" if "ps = []"
    using e(2) that near_zero_left [of _ e] by simp
  have k: "4 + length ps \<le> 2 ^ 52"
  proof -
    have "4 + length ps \<le> 4 + 2 ^ 32" using lps len by simp
    also have "\<dots> \<le> (2 :: nat) ^ 52" by simp
    finally show ?thesis .
  qed
  have nz: "1 / 2 ^ 30 \<le> e \<and> e \<le> 2 ^ 33" if ne: "ps \<noteq> []"
  proof -
    obtain idx where i: "idx \<in> set ps" using ne by (cases ps) auto
    have "1 / 2 ^ 29 \<le> ?t idx" using exact_weight_bounds(1) [OF mem [OF i]] .
    also have "?t idx \<le> (\<Sum>idx\<leftarrow>ps. ?t idx)"
      by (rule member_le_sum_list_real) (use i in auto)
    finally have lo: "1 / 2 ^ 29 \<le> (\<Sum>idx\<leftarrow>ps. ?t idx)" .
    have hi: "(\<Sum>idx\<leftarrow>ps. ?t idx) \<le> 2 ^ 32" using up lps32 by simp
    have b: "(\<Sum>idx\<leftarrow>ps. ?t idx) / 2 \<le> e" "e \<le> 2 * (\<Sum>idx\<leftarrow>ps. ?t idx)"
      using near_bounds [OF e(2) k] by simp_all
    have "(1 / 2 ^ 29) / 2 \<le> (\<Sum>idx\<leftarrow>ps. ?t idx) / 2" using lo by simp
    then have 1: "1 / 2 ^ 30 \<le> e" using b(1) by simp
    have "2 * (\<Sum>idx\<leftarrow>ps. ?t idx) \<le> 2 * 2 ^ 32" using hi by simp
    then have 2: "e \<le> 2 ^ 33" using b(2) by simp
    show ?thesis using 1 2 by simp
  qed
  show ?thesis using a e(2) z nz by blast
qed

lemma accumulate_first:
  assumes "ws \<noteq> []"
  shows "filter (\<lambda>idx. bucket (ws ! idx) = bucket (ws ! 0)) [0 ..< length ws] \<noteq> []"
proof -
  have "0 \<in> set (filter (\<lambda>idx. bucket (ws ! idx) = bucket (ws ! 0)) [0 ..< length ws])"
    using assms by simp
  then show ?thesis by (metis empty_iff empty_set)
qed

lemma near_sum_list:
  assumes "list_all2 (near k) xs ys"
  shows "near k (sum_list xs) (sum_list ys)"
  using assms
proof (induction rule: list_all2_induct)
  case Nil
  then show ?case by (simp add: near_def)
next
  case (Cons x xs y ys)
  have "near (max k k) (x + sum_list xs) (y + sum_list ys)"
    using Cons.hyps(1) Cons.IH by (rule near_add)
  then show ?case by simp
qed

lemma foldl_squares_index:
  "foldl (\<lambda>sum val. fadd sum (fmul val val)) a v
     = foldl (\<lambda>s i. fadd s (fmul (v ! i) (v ! i))) a [0 ..< length v]"
proof -
  have "foldl (\<lambda>s i. fadd s (fmul (v ! i) (v ! i))) a [0 ..< length v]
      = foldl (\<lambda>sum val. fadd sum (fmul val val)) a (map (\<lambda>i. v ! i) [0 ..< length v])"
    by (simp add: foldl_map)
  then show ?thesis by (simp only: map_nth)
qed

text \<open>Normalisation of a vector whose components are zero or between \<open>2 ^ - 30\<close> and
  \<open>2 ^ 33\<close>, as the accumulated vectors are.\<close>

lemma normalise_near:
  assumes emb: "\<And>d. d \<in> set emb \<Longrightarrow> \<exists>e. d = Fin e \<and> (e = 0 \<or> (1 / 2 ^ 30 \<le> e \<and> e \<le> 2 ^ 33))"
    and len: "length emb = 384"
    and nz: "\<exists>d\<in>set emb. d \<noteq> Fin 0"
  shows "\<exists>M. magnitude_of emb = Fin M \<and> 0 < M
     \<and> (\<forall>d\<in>set emb. \<exists>x. fdiv d (Fin M) = Fin x \<and> (x = 0 \<or> (1 / 2 ^ 69 \<le> x \<and> x \<le> 2 ^ 64))
            \<and> (d = Fin 0 \<longrightarrow> x = 0) \<and> (d \<noteq> Fin 0 \<longrightarrow> x \<noteq> 0))
     \<and> near 774 1 (l2_norm (map (\<lambda>v. fdiv v (Fin M)) emb))"
proof -
  let ?t = "\<lambda>d. value_of d * value_of d"
  define S where "S = (\<Sum>d\<leftarrow>emb. ?t d)"
  have mod: "moderate d" if din: "d \<in> set emb" for d
  proof -
    obtain e where e: "d = Fin e" "e = 0 \<or> (1 / 2 ^ 30 \<le> e \<and> e \<le> 2 ^ 33)"
      using emb [OF din] by blast
    have "(1 :: real) / 2 ^ 200 \<le> 1 / 2 ^ 30" "(2 :: real) ^ 33 \<le> 2 ^ 200" by simp_all
    then show ?thesis using e by (auto simp: abs_if)
  qed
  have mv: "moderate_vector emb"
    using mod len by (simp add: moderate_vector_def list_all_iff)
  obtain Y where Y: "foldl (\<lambda>s i. fadd s (fmul (emb ! i) (emb ! i))) (Fin 0) [0 ..< length emb] = Fin Y"
      "near (Suc (length emb)) S Y"
    using squares_near [OF mv] unfolding S_def by blast
  have nY: "near 385 S Y" using Y(2) by (simp add: len)
  \<comment> \<open>bounds of the exact sum of squares\<close>
  have sq_hi: "?t d \<le> 2 ^ 66" if din: "d \<in> set emb" for d
  proof -
    obtain e where e: "d = Fin e" "e = 0 \<or> (1 / 2 ^ 30 \<le> e \<and> e \<le> 2 ^ 33)"
      using emb [OF din] by blast
    have "0 \<le> e" using e(2) by (auto intro: order_trans [of 0 "1 / 2 ^ 30"])
    moreover have "e \<le> 2 ^ 33" using e(2) by auto
    ultimately have "e * e \<le> 2 ^ 33 * 2 ^ 33" by (intro mult_mono) simp_all
    then show ?thesis by (simp add: e(1))
  qed
  have "S \<le> real (length emb) * 2 ^ 66"
    unfolding S_def by (rule sum_list_le_length) (rule sq_hi)
  also have "\<dots> \<le> 2 ^ 9 * 2 ^ 66" by (simp add: len)
  finally have S_hi: "S \<le> 2 ^ 75" by simp
  obtain d0 e0 where d0: "d0 \<in> set emb" "d0 = Fin e0" "1 / 2 ^ 30 \<le> e0"
    using nz emb by (metis)
  have "(1 / 2 ^ 30) * (1 / 2 ^ 30) \<le> e0 * e0" using d0(3) by (intro mult_mono) simp_all
  then have "1 / 2 ^ 60 \<le> ?t d0" by (simp add: d0(2))
  also have "?t d0 \<le> sum_list (map ?t emb)"
    by (rule member_le_sum_list_real) (use d0(1) in auto)
  finally have S_lo: "1 / 2 ^ 60 \<le> S" by (simp add: S_def)
  have S_pos: "0 < S" using S_lo by (rule less_le_trans [rotated]) simp
  \<comment> \<open>the root\<close>
  have r_lo: "1 / 2 ^ 30 \<le> sqrt S"
  proof -
    have "sqrt ((1 / 2 ^ 30)\<^sup>2) \<le> sqrt S" using S_lo by (intro real_sqrt_le_mono) (simp add: power2_eq_square)
    then show ?thesis by simp
  qed
  have r_hi: "sqrt S \<le> 2 ^ 38"
  proof -
    have "S \<le> (2 ^ 38)\<^sup>2" using S_hi by (simp add: power2_eq_square)
    then have "sqrt S \<le> sqrt ((2 ^ 38)\<^sup>2)" by (rule real_sqrt_le_mono)
    then show ?thesis by simp
  qed
  have r_pos: "0 < sqrt S" using S_pos by simp
  have ir: "in_range (sqrt S)"
  proof -
    have "(1 :: real) / 2 ^ 1000 \<le> 1 / 2 ^ 30" "(2 :: real) ^ 38 \<le> 2 ^ 1000" by simp_all
    then show ?thesis using r_lo r_hi unfolding in_range_def by linarith
  qed
  have "\<exists>M. fsqrt (Fin Y) = Fin M \<and> near (Suc 385) (sqrt S) M"
    by (rule fsqrt_near [OF nY _ ir]) simp
  then obtain M where M: "fsqrt (Fin Y) = Fin M" "near 386 (sqrt S) M" by auto
  have M0: "M \<noteq> 0" using M(2) r_pos near_zero_right [of 386 "sqrt S"] by auto
  then have Mpos: "0 < M" using M(2) by (simp add: near_def)
  have mag: "magnitude_of emb = Fin M"
    by (simp only: magnitude_of_def foldl_squares_index Y(1) M(1))
  \<comment> \<open>the components\<close>
  have comp: "\<exists>x. fdiv d (Fin M) = Fin x \<and> near 387 (value_of d / sqrt S) x
       \<and> (x = 0 \<or> (1 / 2 ^ 69 \<le> x \<and> x \<le> 2 ^ 64)) \<and> (d = Fin 0 \<longrightarrow> x = 0) \<and> (d \<noteq> Fin 0 \<longrightarrow> x \<noteq> 0)"
    if din: "d \<in> set emb" for d
  proof -
    obtain e where e: "d = Fin e" "e = 0 \<or> (1 / 2 ^ 30 \<le> e \<and> e \<le> 2 ^ 33)"
      using emb [OF din] by blast
    show ?thesis
    proof (cases "e = 0")
      case True
      then show ?thesis using M0 by (simp add: e(1) near_def)
    next
      case False
      then have eb: "1 / 2 ^ 30 \<le> e" "e \<le> 2 ^ 33" using e(2) by auto
      have epos: "0 < e" using eb(1) by (rule less_le_trans [rotated]) simp
      have ne: "near 0 e e" using epos by (intro near_refl) simp
      have q_lo: "1 / 2 ^ 68 \<le> e / sqrt S"
      proof -
        have "(1 / 2 ^ 30) / 2 ^ 38 \<le> e / 2 ^ 38" using eb(1) by (intro divide_right_mono) simp_all
        also have "\<dots> \<le> e / sqrt S" using r_hi r_pos epos by (intro divide_left_mono) simp_all
        finally show ?thesis by simp
      qed
      have q_hi: "e / sqrt S \<le> 2 ^ 63"
      proof -
        have "e / sqrt S \<le> 2 ^ 33 / sqrt S" using eb(2) r_pos by (intro divide_right_mono) simp_all
        also have "\<dots> \<le> 2 ^ 33 / (1 / 2 ^ 30)" using r_lo S_pos by (intro divide_left_mono) simp_all
        finally show ?thesis by simp
      qed
      have irq: "in_range (e / sqrt S)"
      proof -
        have "(1 :: real) / 2 ^ 1000 \<le> 1 / 2 ^ 68" "(2 :: real) ^ 63 \<le> 2 ^ 1000" by simp_all
        then show ?thesis using q_lo q_hi unfolding in_range_def by linarith
      qed
      define q where "q = e / sqrt S"
      have "\<exists>x. fdiv (Fin e) (Fin M) = Fin x \<and> near (Suc (0 + 386)) (e / sqrt S) x"
        by (rule fdiv_near [OF ne M(2) _ irq r_pos]) simp
      then obtain x where x: "fdiv (Fin e) (Fin M) = Fin x" "near 387 (e / sqrt S) x" by auto
      have ql: "1 / 2 ^ 68 \<le> q" and qh: "q \<le> 2 ^ 63" using q_lo q_hi by (simp_all add: q_def)
      have b: "q / 2 \<le> x" "x \<le> 2 * q"
        using near_bounds [OF x(2)] by (simp_all add: q_def)
      have "(1 / 2 ^ 68) / 2 \<le> q / 2" using ql by simp
      then have 1: "1 / 2 ^ 69 \<le> x" using b(1) by simp
      have "2 * q \<le> 2 * 2 ^ 63" using qh by simp
      then have 2: "x \<le> 2 ^ 64" using b(2) by simp
      have "0 < x" using 1 by (rule less_le_trans [rotated]) simp
      then show ?thesis using x 1 2 False by (simp add: e(1))
    qed
  qed
  \<comment> \<open>the norm of the result\<close>
  let ?out = "map (\<lambda>v. fdiv v (Fin M)) emb"
  define f where "f = (\<lambda>d. (value_of d / sqrt S) * (value_of d / sqrt S))"
  define g where "g = (\<lambda>d. value_of (fdiv d (Fin M)) * value_of (fdiv d (Fin M)))"
  have "list_all2 (near 774) (map f emb) (map g emb)"
    unfolding list_all2_conv_all_nth
  proof (intro conjI allI impI)
    show "length (map f emb) = length (map g emb)" by simp
  next
    fix n assume "n < length (map f emb)"
    then have n: "n < length emb" by simp
    then have "emb ! n \<in> set emb" by simp
    then obtain x where x: "fdiv (emb ! n) (Fin M) = Fin x" "near 387 (value_of (emb ! n) / sqrt S) x"
      using comp by blast
    have "near (387 + 387) (value_of (emb ! n) / sqrt S * (value_of (emb ! n) / sqrt S)) (x * x)"
      using x(2) x(2) by (rule near_mult)
    then have "near 774 (f (emb ! n)) (g (emb ! n))" by (simp add: f_def g_def x(1))
    then show "near 774 (map f emb ! n) (map g emb ! n)" using n by simp
  qed
  then have "near 774 (sum_list (map f emb)) (sum_list (map g emb))" by (rule near_sum_list)
  moreover have "map g emb = map (\<lambda>d. value_of d * value_of d) ?out" by (simp add: g_def comp_def)
  ultimately have n1: "near 774 (\<Sum>d\<leftarrow>emb. (value_of d / sqrt S) * (value_of d / sqrt S))
      (\<Sum>d\<leftarrow>?out. value_of d * value_of d)"
    by (simp add: f_def)
  have "(\<Sum>d\<leftarrow>emb. (value_of d / sqrt S) * (value_of d / sqrt S)) = (\<Sum>d\<leftarrow>emb. (1 / S) * ?t d)"
    using S_pos by (simp add: field_simps)
  also have "\<dots> = (1 / S) * S" unfolding S_def by (rule sum_list_const_mult)
  also have "\<dots> = 1" using S_pos by simp
  finally have one: "(\<Sum>d\<leftarrow>emb. (value_of d / sqrt S) * (value_of d / sqrt S)) = 1" .
  have "near 774 1 (\<Sum>d\<leftarrow>?out. value_of d * value_of d)" using n1 unfolding one .
  then have "near 774 (sqrt 1) (sqrt (\<Sum>d\<leftarrow>?out. value_of d * value_of d))" by (rule near_sqrt)
  then have norm: "near 774 1 (l2_norm ?out)" by (simp add: l2_norm_def power2_eq_square)
  show ?thesis using mag Mpos comp norm by blast
qed











lemma accumulate_components:
  assumes "length ws < 2 ^ 32" "d \<in> set (accumulate ws)"
  shows "\<exists>e. d = Fin e \<and> (e = 0 \<or> (1 / 2 ^ 30 \<le> e \<and> e \<le> 2 ^ 33))"
proof -
  obtain j where j: "j < 384" "d = accumulate ws ! j"
    using assms(2) by (auto simp: in_set_conv_nth length_accumulate)
  show ?thesis using accumulate_entry [OF assms(1) j(1)] unfolding j(2) by (metis (lifting))
qed

lemma accumulate_nonzero:
  assumes "length ws < 2 ^ 32" "ws \<noteq> []"
  shows "\<exists>d\<in>set (accumulate ws). d \<noteq> Fin 0"
proof -
  let ?j = "bucket (ws ! 0)"
  obtain e where e: "accumulate ws ! ?j = Fin e" "1 / 2 ^ 30 \<le> e"
    using accumulate_entry [OF assms(1) bucket_less [of "ws ! 0"]] accumulate_first [OF assms(2)]
    by blast
  have "0 < e" using e(2) by (rule less_le_trans [rotated]) simp
  then have "accumulate ws ! ?j \<noteq> Fin 0" using e(1) by simp
  moreover have "accumulate ws ! ?j \<in> set (accumulate ws)"
    by (simp add: length_accumulate bucket_less)
  ultimately show ?thesis by blast
qed

text \<open>The embedding of a text with a token: the accumulated vector divided by its
  magnitude, with a norm that is 1 up to 774 roundings.\<close>

lemma createSimpleEmbedding_normalised:
  assumes ne: "tokens text \<noteq> []" and len: "length (tokens text) < 2 ^ 32"
  shows "\<exists>M. magnitude_of (accumulate (tokens text)) = Fin M \<and> 0 < M
     \<and> createSimpleEmbedding text = map (\<lambda>v. fdiv v (Fin M)) (accumulate (tokens text))
     \<and> (\<forall>d\<in>set (accumulate (tokens text)).
           \<exists>x. fdiv d (Fin M) = Fin x \<and> (x = 0 \<or> (1 / 2 ^ 69 \<le> x \<and> x \<le> 2 ^ 64))
             \<and> (d = Fin 0 \<longrightarrow> x = 0) \<and> (d \<noteq> Fin 0 \<longrightarrow> x \<noteq> 0))
     \<and> near 774 1 (l2_norm (createSimpleEmbedding text))"
proof -
  obtain M where M: "magnitude_of (accumulate (tokens text)) = Fin M" "0 < M"
      "\<forall>d\<in>set (accumulate (tokens text)).
           \<exists>x. fdiv d (Fin M) = Fin x \<and> (x = 0 \<or> (1 / 2 ^ 69 \<le> x \<and> x \<le> 2 ^ 64))
             \<and> (d = Fin 0 \<longrightarrow> x = 0) \<and> (d \<noteq> Fin 0 \<longrightarrow> x \<noteq> 0)"
      "near 774 1 (l2_norm (map (\<lambda>v. fdiv v (Fin M)) (accumulate (tokens text))))"
    using normalise_near [OF accumulate_components [OF len] length_accumulate accumulate_nonzero [OF len ne]]
    by blast
  have c: "createSimpleEmbedding text = map (\<lambda>v. fdiv v (Fin M)) (accumulate (tokens text))"
    using M(1,2) by (simp add: createSimpleEmbedding_def Let_def fgt_def)
  show ?thesis using M c by auto
qed

lemma foldl_zero_squares_list:
  "foldl (\<lambda>sum val. fadd sum (fmul val val)) (Fin 0) (replicate n (Fin 0)) = Fin 0"
  by (induction n) simp_all

lemma createSimpleEmbedding_no_tokens:
  assumes "tokens text = []"
  shows "createSimpleEmbedding text = replicate 384 (Fin 0)"
proof -
  have a: "accumulate [] = replicate 384 (Fin 0)" by (simp add: accumulate_def)
  have "magnitude_of (replicate 384 (Fin 0)) = Fin 0"
    by (simp add: magnitude_of_def foldl_zero_squares_list)
  then show ?thesis by (simp add: createSimpleEmbedding_def Let_def assms a fgt_def)
qed

lemma createSimpleEmbedding_components:
  assumes len: "length (tokens text) < 2 ^ 32" and d: "d \<in> set (createSimpleEmbedding text)"
  shows "\<exists>x. d = Fin x \<and> (x = 0 \<or> (1 / 2 ^ 69 \<le> x \<and> x \<le> 2 ^ 64))"
proof (cases "tokens text = []")
  case True
  then have "createSimpleEmbedding text = replicate 384 (Fin 0)"
    by (rule createSimpleEmbedding_no_tokens)
  then show ?thesis using d by auto
next
  case False
  obtain M where M: "createSimpleEmbedding text = map (\<lambda>v. fdiv v (Fin M)) (accumulate (tokens text))"
      "\<forall>d\<in>set (accumulate (tokens text)).
           \<exists>x. fdiv d (Fin M) = Fin x \<and> (x = 0 \<or> (1 / 2 ^ 69 \<le> x \<and> x \<le> 2 ^ 64))
             \<and> (d = Fin 0 \<longrightarrow> x = 0) \<and> (d \<noteq> Fin 0 \<longrightarrow> x \<noteq> 0)"
    using createSimpleEmbedding_normalised [OF False len] by blast
  obtain c where c: "c \<in> set (accumulate (tokens text))" "d = fdiv c (Fin M)"
    using d unfolding M(1) by auto
  show ?thesis using M(2) c by metis
qed











section \<open>Properties of the provider service\<close>

lemma getProvider_openai: "getProvider (env (runtime_for ''openai'')) = ''openai''"
  by (simp add: getProvider_def runtime_for_def toLowerCase_def toLowerCase_char_def)

lemma getProvider_ollama: "getProvider (env (runtime_for ''ollama'')) = ''ollama''"
  by (simp add: getProvider_def runtime_for_def toLowerCase_def toLowerCase_char_def)

lemma getProvider_demo: "getProvider (env (runtime_for ''demo'')) = ''demo''"
  by (simp add: getProvider_def runtime_for_def toLowerCase_def toLowerCase_char_def)

lemma empty_project_world_eq:
  "empty_project_world key =
     \<lparr>vectorStores = [''p1'' \<mapsto> \<lparr>vectors = [], files = [], indexedAt = ''2024-01-01T00:00:00.000Z'',
                        stats = \<lparr>totalFiles = 0, totalChunks = 0, languages = []\<rparr>\<rparr>],
      console = [IndexingProject ''p1'' 0, IndexedChunks 0 ''p1''], calls = []\<rparr>"
  by (simp add: empty_project_world_def indexProject_def emit_def empty_world_def uniq_def)

text \<open>Every call of the two exported operations is recorded, whatever the provider.\<close>

lemma calls_createEmbedding:
  "calls (snd (createEmbedding rt text w)) = calls w @ [EmbeddingCall text]"
  by (simp add: createEmbedding_def createOpenAIEmbedding_def createOllamaEmbedding_def
      emit_def Let_def split: sum.splits)

lemma calls_generateCompletion:
  "calls (snd (generateCompletion rt sp up w)) = calls w @ [CompletionCall sp up]"
  by (simp add: generateCompletion_def generateOpenAICompletion_def generateOllamaCompletion_def
      generateGroqCompletion_def emit_def Let_def split: sum.splits)

text \<open>
  Claim C3, as the code has it. With the Ollama provider \<open>createEmbedding\<close> never throws:
  when the request fails it writes two console lines and returns the offline embedding.
  With Groq, demo mode or an unrecognised key no request is made and the offline embedding
  is returned. With the OpenAI provider a failed request is written to the console and
  thrown again to the caller of \<open>createEmbedding\<close>; \<open>searchCode\<close> on an existing project
  passes it on to its own caller.
\<close>

theorem createEmbedding_failure_semantics:
  "(getProvider (env rt) = ''ollama'' \<longrightarrow>
      (\<exists>e w'. createEmbedding rt text w = (Inr e, w'))
      \<and> (\<forall>msg. ollama_embeddings (net rt) (Suc (length (calls w))) (take 8000 text) = Inl msg \<longrightarrow>
            createEmbedding rt text w =
              (Inr (Some (createSimpleEmbedding text)),
               w\<lparr>calls := calls w @ [EmbeddingCall text],
                 console := console w @ [OllamaEmbeddingError msg, FallingBackToSimpleEmbedding]\<rparr>)))
   \<and> (getProvider (env rt) \<noteq> ''openai'' \<and> getProvider (env rt) \<noteq> ''ollama'' \<longrightarrow>
        createEmbedding rt text w =
          (Inr (Some (createSimpleEmbedding text)), w\<lparr>calls := calls w @ [EmbeddingCall text]\<rparr>))
   \<and> (getProvider (env rt) = ''openai'' \<longrightarrow>
        (\<forall>msg. openai_embeddings (net rt) (Suc (length (calls w))) (take 8000 text) = Inl msg \<longrightarrow>
           createEmbedding rt text w =
             (Inl (RequestFailed msg),
              w\<lparr>calls := calls w @ [EmbeddingCall text],
                console := console w @ [OpenAIEmbeddingError msg]\<rparr>)
           \<and> (vectorStores w projectId \<noteq> None \<longrightarrow>
                searchCode rt projectId text options w =
                  (Inl (RequestFailed msg),
                   w\<lparr>calls := calls w @ [EmbeddingCall text],
                     console := console w @ [OpenAIEmbeddingError msg]\<rparr>))))"
  by (auto simp: createEmbedding_def createOpenAIEmbedding_def createOllamaEmbedding_def
      searchCode_def emit_def Let_def split: sum.splits option.splits)

text \<open>The three cases on a network where every request fails.\<close>

theorem createEmbedding_failure_semantics_witness:
  "createEmbedding (runtime_for ''ollama'') ''hello'' empty_world =
     (Inr (Some (createSimpleEmbedding ''hello'')),
      \<lparr>vectorStores = Map.empty,
       console = [OllamaEmbeddingError ''fetch failed'', FallingBackToSimpleEmbedding],
       calls = [EmbeddingCall ''hello'']\<rparr>)
   \<and> createEmbedding (runtime_for ''demo'') ''hello'' empty_world =
     (Inr (Some (createSimpleEmbedding ''hello'')),
      \<lparr>vectorStores = Map.empty, console = [], calls = [EmbeddingCall ''hello'']\<rparr>)
   \<and> fst (searchCode (runtime_for ''openai'') ''p1'' ''hello'' no_options (empty_project_world ''openai''))
       = Inl (RequestFailed ''connect ECONNREFUSED'')"
proof -
  have o: "ollama_embeddings (net (runtime_for ''ollama'')) (Suc (length (calls empty_world))) (take 8000 ''hello'')
      = Inl ''fetch failed''"
    by (simp add: runtime_for_def failing_net_def)
  have a: "openai_embeddings (net (runtime_for ''openai'')) (Suc (length (calls (empty_project_world ''openai'')))) (take 8000 ''hello'')
      = Inl ''connect ECONNREFUSED''"
    by (simp add: runtime_for_def failing_net_def)
  have s: "vectorStores (empty_project_world ''openai'') ''p1'' \<noteq> None"
    by (simp add: empty_project_world_eq)
  note t1 = createEmbedding_failure_semantics [of "runtime_for ''ollama''" "''hello''" empty_world "''p1''" no_options]
  note t2 = createEmbedding_failure_semantics [of "runtime_for ''demo''" "''hello''" empty_world "''p1''" no_options]
  note t3 = createEmbedding_failure_semantics [of "runtime_for ''openai''" "''hello''" "empty_project_world ''openai''" "''p1''" no_options]
  have 1: "createEmbedding (runtime_for ''ollama'') ''hello'' empty_world =
     (Inr (Some (createSimpleEmbedding ''hello'')),
      empty_world\<lparr>calls := calls empty_world @ [EmbeddingCall ''hello''],
        console := console empty_world @ [OllamaEmbeddingError ''fetch failed'', FallingBackToSimpleEmbedding]\<rparr>)"
    using t1 o by (simp add: getProvider_ollama)
  have 2: "createEmbedding (runtime_for ''demo'') ''hello'' empty_world =
     (Inr (Some (createSimpleEmbedding ''hello'')), empty_world\<lparr>calls := calls empty_world @ [EmbeddingCall ''hello'']\<rparr>)"
    using t2 by (simp add: getProvider_demo)
  have 3: "fst (searchCode (runtime_for ''openai'') ''p1'' ''hello'' no_options (empty_project_world ''openai''))
       = Inl (RequestFailed ''connect ECONNREFUSED'')"
    using t3 a s by (simp add: getProvider_openai)
  show ?thesis using 1 2 3 by (simp add: empty_world_def)
qed

text \<open>
  Claim C3 as stated fails for the OpenAI provider: the failure reaches the caller of
  \<open>createEmbedding\<close>, the result is not the offline embedding, and a search at query time
  fails with the same error.
\<close>

theorem openai_embedding_failure_counterexample:
  "fst (createEmbedding (runtime_for ''openai'') ''hello'' empty_world)
     = Inl (RequestFailed ''connect ECONNREFUSED'')
   \<and> fst (createEmbedding (runtime_for ''openai'') ''hello'' empty_world)
     \<noteq> Inr (Some (createSimpleEmbedding ''hello''))
   \<and> fst (searchCode (runtime_for ''openai'') ''p1'' ''hello'' no_options (empty_project_world ''openai''))
     = Inl (RequestFailed ''connect ECONNREFUSED'')"
  by (simp add: createEmbedding_def createOpenAIEmbedding_def searchCode_def emit_def Let_def
      runtime_for_def failing_net_def empty_project_world_eq getProvider_def toLowerCase_def
      toLowerCase_char_def)

text \<open>
  The \<open>default\<close> arms of \<open>createEmbedding\<close> and \<open>generateCompletion\<close> send an
  unrecognised key to the offline embedding and the demo completion; but no module can be
  loaded with such a key, unless it names a property inherited from \<open>Object.prototype\<close>.
\<close>

lemma unrecognized_provider_default_arms:
  assumes "getProvider (env rt) \<notin> {''openai'', ''ollama'', ''groq'', ''demo''}"
  shows "fst (createEmbedding rt text w) = Inr (Some (createSimpleEmbedding text))"
    and "fst (generateCompletion rt systemPrompt userPrompt w) = Inr (generateDemoCompletion userPrompt)"
  using assms by (simp_all add: createEmbedding_def generateCompletion_def Let_def)

lemma unrecognized_provider_never_loads:
  assumes "getProvider e \<notin> {''openai'', ''ollama'', ''groq'', ''demo'', ''constructor'', ''__proto__''}"
  shows "module_load e = Inl (TypeError ''Cannot read properties of undefined (reading 'name')'')"
  using assms by (simp add: module_load_def getProviderStatus_def providerConfigs_def)

text \<open>
  Claim C4 on the code: the module itself cannot be loaded with such a key. With
  \<open>AI_PROVIDER=foo\<close> the call of \<open>getProviderStatus\<close> at the end of the module reads
  \<open>config.name\<close> of \<open>undefined\<close> and throws, so no embedding or completion can be requested.
\<close>

theorem unrecognized_provider_module_load_fails:
  "module_load [''AI_PROVIDER'' \<mapsto> ''foo'']
     = Inl (TypeError ''Cannot read properties of undefined (reading 'name')'')
   \<and> getProviderStatus [''AI_PROVIDER'' \<mapsto> ''foo'']
     = Inl (TypeError ''Cannot read properties of undefined (reading 'name')'')"
  by (simp add: module_load_def getProviderStatus_def providerConfigs_def getProvider_def
      toLowerCase_def toLowerCase_char_def)



section \<open>Properties of indexing\<close>

lemma createEmbedding_outcome:
  "fst (createEmbedding rt text w) = embedding_outcome rt (Suc (length (calls w))) text"
  by (simp add: embedding_outcome_def createEmbedding_def createOpenAIEmbedding_def
      createOllamaEmbedding_def Let_def split: sum.splits)

lemma stores_createEmbedding:
  "vectorStores (snd (createEmbedding rt text w)) = vectorStores w"
  by (simp add: createEmbedding_def createOpenAIEmbedding_def createOllamaEmbedding_def
      emit_def Let_def split: sum.splits)

lemma console_createEmbedding:
  "filter is_chunk_warning (console (snd (createEmbedding rt text w))) = filter is_chunk_warning (console w)"
  "filter is_summary_warning (console (snd (createEmbedding rt text w))) = filter is_summary_warning (console w)"
  by (simp_all add: createEmbedding_def createOpenAIEmbedding_def createOllamaEmbedding_def
      emit_def Let_def split: sum.splits)

lemma openai_errors_createEmbedding:
  "getProvider (env rt) = ''openai'' \<Longrightarrow>
   length (filter is_openai_error (console (snd (createEmbedding rt text w))))
     = length (filter is_openai_error (console w))
       + (case fst (createEmbedding rt text w) of Inl _ \<Rightarrow> 1 | Inr _ \<Rightarrow> 0)"
  by (simp add: createEmbedding_def createOpenAIEmbedding_def emit_def Let_def split: sum.splits)

lemma embedding_outcome_Inl:
  "embedding_outcome rt k text = Inl err \<Longrightarrow> getProvider (env rt) = ''openai''"
  by (auto simp: embedding_outcome_def Let_def split: if_splits sum.splits)

text \<open>The inner loop of \<open>indexProject\<close>, from any state of its variables.\<close>

lemma embed_chunks_result:
  "\<exists>w'. embed_chunks rt cs ((vecs, processed, errs), w) =
          ((vecs @ embedded rt (length (calls w)) cs,
            processed + length (embedded rt (length (calls w)) cs),
            errs + failures rt (length (calls w)) cs), w')
     \<and> calls w' = calls w @ map (\<lambda>c. EmbeddingCall (content c)) cs
     \<and> vectorStores w' = vectorStores w
     \<and> length (filter is_chunk_warning (console w')) + min errs 3
         = length (filter is_chunk_warning (console w)) + min (errs + failures rt (length (calls w)) cs) 3
     \<and> filter is_summary_warning (console w') = filter is_summary_warning (console w)
     \<and> (getProvider (env rt) = ''openai'' \<longrightarrow>
          length (filter is_openai_error (console w'))
            = length (filter is_openai_error (console w)) + failures rt (length (calls w)) cs)"
proof (induction cs arbitrary: vecs processed errs w)
  case Nil
  show ?case by simp
next
  case (Cons c cs)
  obtain r w1 where ce: "createEmbedding rt (content c) w = (r, w1)"
    by (cases "createEmbedding rt (content c) w")
  have r: "r = embedding_outcome rt (Suc (length (calls w))) (content c)"
    using createEmbedding_outcome [of rt "content c" w] ce by simp
  have c1: "calls w1 = calls w @ [EmbeddingCall (content c)]"
    using calls_createEmbedding [of rt "content c" w] ce by simp
  have s1: "vectorStores w1 = vectorStores w"
    using stores_createEmbedding [of rt "content c" w] ce by simp
  have k1: "filter is_chunk_warning (console w1) = filter is_chunk_warning (console w)"
      "filter is_summary_warning (console w1) = filter is_summary_warning (console w)"
    using console_createEmbedding [of rt "content c" w] ce by simp_all
  have l1: "length (calls w1) = Suc (length (calls w))" by (simp add: c1)
  have p1: "getProvider (env rt) = ''openai'' \<longrightarrow>
      length (filter is_openai_error (console w1))
        = length (filter is_openai_error (console w)) + (case r of Inl _ \<Rightarrow> 1 | Inr _ \<Rightarrow> 0)"
    using openai_errors_createEmbedding [of rt "content c" w] ce by simp
  show ?case
  proof (cases r)
    case (Inr e)
    define w2 where "w2 = (if (Suc processed) mod 10 = 0 then emit (ProcessedChunks (Suc processed)) w1 else w1)"
    have w2: "calls w2 = calls w1" "vectorStores w2 = vectorStores w1"
      "filter is_chunk_warning (console w2) = filter is_chunk_warning (console w1)"
      "filter is_summary_warning (console w2) = filter is_summary_warning (console w1)"
      "filter is_openai_error (console w2) = filter is_openai_error (console w1)"
      by (simp_all add: w2_def emit_def)
    have step: "embed_chunks rt (c # cs) ((vecs, processed, errs), w)
        = embed_chunks rt cs ((vecs @ [with_embedding c e], Suc processed, errs), w2)"
      by (simp add: ce Inr w2_def Let_def)
    from Cons [of "vecs @ [with_embedding c e]" "Suc processed" errs w2]
    obtain w' where ih: "embed_chunks rt cs ((vecs @ [with_embedding c e], Suc processed, errs), w2) =
          (((vecs @ [with_embedding c e]) @ embedded rt (length (calls w2)) cs,
            Suc processed + length (embedded rt (length (calls w2)) cs),
            errs + failures rt (length (calls w2)) cs), w')"
      "calls w' = calls w2 @ map (\<lambda>c. EmbeddingCall (content c)) cs"
      "vectorStores w' = vectorStores w2"
      "length (filter is_chunk_warning (console w')) + min errs 3
         = length (filter is_chunk_warning (console w2)) + min (errs + failures rt (length (calls w2)) cs) 3"
      "filter is_summary_warning (console w') = filter is_summary_warning (console w2)"
      "getProvider (env rt) = ''openai'' \<longrightarrow>
          length (filter is_openai_error (console w'))
            = length (filter is_openai_error (console w2)) + failures rt (length (calls w2)) cs"
      by blast
    have o: "embedding_outcome rt (Suc (length (calls w))) (content c) = Inr e"
      using r Inr by simp
    show ?thesis
      using p1 ih(6) by (intro exI [of _ w'], subst step) (simp add: ih(1-5) w2 l1 c1 s1 k1 o Inr)
  next
    case (Inl err)
    define w2 where "w2 = (if Suc errs \<le> 3 then emit (CouldNotEmbedChunk (path c) (message err)) w1 else w1)"
    have w2: "calls w2 = calls w1" "vectorStores w2 = vectorStores w1"
      "filter is_summary_warning (console w2) = filter is_summary_warning (console w1)"
      "filter is_openai_error (console w2) = filter is_openai_error (console w1)"
      by (simp_all add: w2_def emit_def)
    have w2c: "length (filter is_chunk_warning (console w2)) + min errs 3
        = length (filter is_chunk_warning (console w1)) + min (Suc errs) 3"
      by (simp add: w2_def emit_def)
    have step: "embed_chunks rt (c # cs) ((vecs, processed, errs), w)
        = embed_chunks rt cs ((vecs, processed, Suc errs), w2)"
      by (simp add: ce Inl w2_def Let_def)
    from Cons [of vecs processed "Suc errs" w2]
    obtain w' where ih: "embed_chunks rt cs ((vecs, processed, Suc errs), w2) =
          ((vecs @ embedded rt (length (calls w2)) cs,
            processed + length (embedded rt (length (calls w2)) cs),
            Suc errs + failures rt (length (calls w2)) cs), w')"
      "calls w' = calls w2 @ map (\<lambda>c. EmbeddingCall (content c)) cs"
      "vectorStores w' = vectorStores w2"
      "length (filter is_chunk_warning (console w')) + min (Suc errs) 3
         = length (filter is_chunk_warning (console w2)) + min (Suc errs + failures rt (length (calls w2)) cs) 3"
      "filter is_summary_warning (console w') = filter is_summary_warning (console w2)"
      "getProvider (env rt) = ''openai'' \<longrightarrow>
          length (filter is_openai_error (console w'))
            = length (filter is_openai_error (console w2)) + failures rt (length (calls w2)) cs"
      by blast
    have o: "embedding_outcome rt (Suc (length (calls w))) (content c) = Inl err"
      using r Inl by simp
    have cnt: "length (filter is_chunk_warning (console w')) + min errs 3
         = length (filter is_chunk_warning (console w)) + min (Suc errs + failures rt (Suc (length (calls w))) cs) 3"
      using ih(4) w2c by (simp add: w2 l1 k1)
    show ?thesis
      using p1 ih(6) by (intro exI [of _ w'], subst step) (simp add: ih(1-5) w2 l1 c1 s1 k1 o cnt Inl)
  qed
qed


lemma embedded_append:
  "embedded rt n (xs @ ys) = embedded rt n xs @ embedded rt (n + length xs) ys"
  by (induction xs arbitrary: n) simp_all

lemma failures_append:
  "failures rt n (xs @ ys) = failures rt n xs + failures rt (n + length xs) ys"
  by (induction xs arbitrary: n) simp_all

lemma embedded_failures_length: "length (embedded rt n cs) + failures rt n cs = length cs"
  by (induction cs arbitrary: n) (simp_all split: sum.splits)

lemma index_files_result:
  "\<exists>w'. index_files rt fs ((vecs, processed, errs), w) =
          ((vecs @ embedded rt (length (calls w)) (concat (map chunkContent fs)),
            processed + length (embedded rt (length (calls w)) (concat (map chunkContent fs))),
            errs + failures rt (length (calls w)) (concat (map chunkContent fs))), w')
     \<and> calls w' = calls w @ map (\<lambda>c. EmbeddingCall (content c)) (concat (map chunkContent fs))
     \<and> vectorStores w' = vectorStores w
     \<and> length (filter is_chunk_warning (console w')) + min errs 3
         = length (filter is_chunk_warning (console w))
           + min (errs + failures rt (length (calls w)) (concat (map chunkContent fs))) 3
     \<and> filter is_summary_warning (console w') = filter is_summary_warning (console w)
     \<and> (getProvider (env rt) = ''openai'' \<longrightarrow>
          length (filter is_openai_error (console w'))
            = length (filter is_openai_error (console w))
              + failures rt (length (calls w)) (concat (map chunkContent fs)))"
proof (induction fs arbitrary: vecs processed errs w)
  case Nil
  show ?case by simp
next
  case (Cons f fs)
  let ?cs = "chunkContent f"
  let ?n = "length (calls w)"
  from embed_chunks_result [of rt ?cs vecs processed errs w]
  obtain w1 where e: "embed_chunks rt ?cs ((vecs, processed, errs), w) =
          ((vecs @ embedded rt ?n ?cs, processed + length (embedded rt ?n ?cs),
            errs + failures rt ?n ?cs), w1)"
    and c1: "calls w1 = calls w @ map (\<lambda>c. EmbeddingCall (content c)) ?cs"
    and s1: "vectorStores w1 = vectorStores w"
    and k1: "length (filter is_chunk_warning (console w1)) + min errs 3
         = length (filter is_chunk_warning (console w)) + min (errs + failures rt ?n ?cs) 3"
    and m1: "filter is_summary_warning (console w1) = filter is_summary_warning (console w)"
    and p1: "getProvider (env rt) = ''openai'' \<longrightarrow>
          length (filter is_openai_error (console w1))
            = length (filter is_openai_error (console w)) + failures rt ?n ?cs"
    by blast
  have l1: "length (calls w1) = ?n + length ?cs" by (simp add: c1)
  let ?rest = "concat (map chunkContent fs)"
  from Cons [of "vecs @ embedded rt ?n ?cs" "processed + length (embedded rt ?n ?cs)"
      "errs + failures rt ?n ?cs" w1]
  obtain w' where i: "index_files rt fs ((vecs @ embedded rt ?n ?cs,
            processed + length (embedded rt ?n ?cs), errs + failures rt ?n ?cs), w1) =
          (((vecs @ embedded rt ?n ?cs) @ embedded rt (length (calls w1)) ?rest,
            processed + length (embedded rt ?n ?cs) + length (embedded rt (length (calls w1)) ?rest),
            errs + failures rt ?n ?cs + failures rt (length (calls w1)) ?rest), w')"
    and c2: "calls w' = calls w1 @ map (\<lambda>c. EmbeddingCall (content c)) ?rest"
    and s2: "vectorStores w' = vectorStores w1"
    and k2: "length (filter is_chunk_warning (console w')) + min (errs + failures rt ?n ?cs) 3
         = length (filter is_chunk_warning (console w1))
           + min (errs + failures rt ?n ?cs + failures rt (length (calls w1)) ?rest) 3"
    and m2: "filter is_summary_warning (console w') = filter is_summary_warning (console w1)"
    and p2: "getProvider (env rt) = ''openai'' \<longrightarrow>
          length (filter is_openai_error (console w'))
            = length (filter is_openai_error (console w1)) + failures rt (length (calls w1)) ?rest"
    by blast
  have k: "length (filter is_chunk_warning (console w')) + min errs 3
         = length (filter is_chunk_warning (console w))
           + min (errs + failures rt ?n ?cs + failures rt (?n + length ?cs) ?rest) 3"
    using k1 k2 by (simp add: l1)
  show ?case
    using p1 p2 k
    by (intro exI [of _ w'])
       (simp add: e i c1 c2 s1 s2 m1 m2 l1 embedded_append failures_append add.assoc)
qed


lemma indexProject_result:
  "\<exists>w'. indexProject rt projectId fs now w =
          (Inr \<lparr>totalFiles = length fs,
                totalChunks = length (embedded rt (length (calls w)) (concat (map chunkContent fs))),
                languages = uniq (map language fs)\<rparr>, w')
     \<and> vectorStores w' =
         (vectorStores w)(projectId \<mapsto>
            \<lparr>vectors = embedded rt (length (calls w)) (concat (map chunkContent fs)),
             files = fs, indexedAt = now,
             stats = \<lparr>totalFiles = length fs,
                       totalChunks = length (embedded rt (length (calls w)) (concat (map chunkContent fs))),
                       languages = uniq (map language fs)\<rparr>\<rparr>)
     \<and> calls w' = calls w @ map (\<lambda>c. EmbeddingCall (content c)) (concat (map chunkContent fs))
     \<and> length (filter is_chunk_warning (console w'))
         = length (filter is_chunk_warning (console w))
           + min (failures rt (length (calls w)) (concat (map chunkContent fs))) 3
     \<and> filter is_summary_warning (console w')
         = filter is_summary_warning (console w)
           @ (if 3 < failures rt (length (calls w)) (concat (map chunkContent fs))
              then [MoreEmbeddingErrors (failures rt (length (calls w)) (concat (map chunkContent fs)) - 3)]
              else [])
     \<and> (getProvider (env rt) = ''openai'' \<longrightarrow>
          length (filter is_openai_error (console w'))
            = length (filter is_openai_error (console w))
              + failures rt (length (calls w)) (concat (map chunkContent fs)))"
proof -
  define w0 where "w0 = emit (IndexingProject projectId (length fs)) w"
  have w0: "calls w0 = calls w" "vectorStores w0 = vectorStores w"
    "filter is_chunk_warning (console w0) = filter is_chunk_warning (console w)"
    "filter is_summary_warning (console w0) = filter is_summary_warning (console w)"
    "filter is_openai_error (console w0) = filter is_openai_error (console w)"
    by (simp_all add: w0_def emit_def)
  define cs where "cs = concat (map chunkContent fs)"
  define vs where "vs = embedded rt (length (calls w)) cs"
  define k where "k = failures rt (length (calls w)) cs"
  from index_files_result [of rt fs "[]" 0 0 w0]
  obtain w1 where i: "index_files rt fs (([], 0, 0), w0) = ((vs, length vs, k), w1)"
    and c1: "calls w1 = calls w @ map (\<lambda>c. EmbeddingCall (content c)) cs"
    and s1: "vectorStores w1 = vectorStores w"
    and k1: "length (filter is_chunk_warning (console w1))
         = length (filter is_chunk_warning (console w)) + min k 3"
    and m1: "filter is_summary_warning (console w1) = filter is_summary_warning (console w)"
    and p1: "getProvider (env rt) = ''openai'' \<longrightarrow>
          length (filter is_openai_error (console w1))
            = length (filter is_openai_error (console w)) + k"
    unfolding vs_def k_def cs_def by (auto simp: w0)
  define w2 where "w2 = (if 3 < k then emit (MoreEmbeddingErrors (k - 3)) w1 else w1)"
  have w2: "calls w2 = calls w1" "vectorStores w2 = vectorStores w1"
    "filter is_chunk_warning (console w2) = filter is_chunk_warning (console w1)"
    "filter is_summary_warning (console w2)
       = filter is_summary_warning (console w1) @ (if 3 < k then [MoreEmbeddingErrors (k - 3)] else [])"
    "filter is_openai_error (console w2) = filter is_openai_error (console w1)"
    by (simp_all add: w2_def emit_def)
  define st where "st = \<lparr>vectors = vs, files = fs, indexedAt = now,
      stats = \<lparr>totalFiles = length fs, totalChunks = length vs, languages = uniq (map language fs)\<rparr>\<rparr>"
  define w3 where "w3 = emit (IndexedChunks (length vs) projectId)
      (w2\<lparr>vectorStores := (vectorStores w2)(projectId \<mapsto> st)\<rparr>)"
  have r: "indexProject rt projectId fs now w = (Inr (stats st), w3)"
    unfolding indexProject_def w0_def [symmetric]
    by (simp add: i Let_def w2_def [symmetric] st_def [symmetric] w3_def emit_def)
       (simp add: st_def)
  have w3: "calls w3 = calls w2" "vectorStores w3 = (vectorStores w2)(projectId \<mapsto> st)"
    "filter is_chunk_warning (console w3) = filter is_chunk_warning (console w2)"
    "filter is_summary_warning (console w3) = filter is_summary_warning (console w2)"
    "filter is_openai_error (console w3) = filter is_openai_error (console w2)"
    by (simp_all add: w3_def emit_def)
  show ?thesis
    unfolding cs_def [symmetric] vs_def [symmetric] k_def [symmetric]
    using p1
    by (intro exI [of _ w3]) (simp add: r w3 w2 c1 s1 k1 m1 st_def)
qed

text \<open>
  Claim C6. For every list of files \<open>indexProject\<close> returns statistics, never an error.
  Every chunk is passed to \<open>createEmbedding\<close> exactly once, in order (no retry); the
  index holds exactly the chunks whose call succeeded, and \<open>totalChunks\<close> is their number,
  the number of chunks less the number of failures. \<open>indexProject\<close> writes one warning for
  each of the first 3 failures and one closing line when there are more. (A call can only
  fail with the OpenAI provider, and the provider service writes its own error line for
  each of its failed calls.)
\<close>

theorem indexProject_absorbs_embedding_failures:
  "let cs = concat (map chunkContent fs);
       n = length (calls w);
       vs = embedded rt n cs;
       k = failures rt n cs
   in \<exists>w'. indexProject rt projectId fs now w =
              (Inr \<lparr>totalFiles = length fs, totalChunks = length vs,
                    languages = uniq (map language fs)\<rparr>, w')
        \<and> map_option vectors (vectorStores w' projectId) = Some vs
        \<and> calls w' = calls w @ map (\<lambda>c. EmbeddingCall (content c)) cs
        \<and> length vs + k = length cs
        \<and> length (filter is_chunk_warning (console w'))
            = length (filter is_chunk_warning (console w)) + min k 3
        \<and> filter is_summary_warning (console w')
            = filter is_summary_warning (console w)
              @ (if 3 < k then [MoreEmbeddingErrors (k - 3)] else [])
        \<and> (getProvider (env rt) = ''openai'' \<longrightarrow>
             length (filter is_openai_error (console w'))
               = length (filter is_openai_error (console w)) + k)
        \<and> (0 < k \<longrightarrow> getProvider (env rt) = ''openai'')"
proof -
  define cs where "cs = concat (map chunkContent fs)"
  have pos: "0 < failures rt n cs \<longrightarrow> getProvider (env rt) = ''openai''" for n
    by (induction cs arbitrary: n) (auto split: sum.splits dest: embedding_outcome_Inl)
  from indexProject_result [of rt projectId fs now w, folded cs_def]
  obtain w' where w': "indexProject rt projectId fs now w =
          (Inr \<lparr>totalFiles = length fs,
                totalChunks = length (embedded rt (length (calls w)) cs),
                languages = uniq (map language fs)\<rparr>, w')"
     "vectorStores w' =
         (vectorStores w)(projectId \<mapsto>
            \<lparr>vectors = embedded rt (length (calls w)) cs,
             files = fs, indexedAt = now,
             stats = \<lparr>totalFiles = length fs,
                       totalChunks = length (embedded rt (length (calls w)) cs),
                       languages = uniq (map language fs)\<rparr>\<rparr>)"
     "calls w' = calls w @ map (\<lambda>c. EmbeddingCall (content c)) cs"
     "length (filter is_chunk_warning (console w'))
         = length (filter is_chunk_warning (console w)) + min (failures rt (length (calls w)) cs) 3"
     "filter is_summary_warning (console w')
         = filter is_summary_warning (console w)
           @ (if 3 < failures rt (length (calls w)) cs
              then [MoreEmbeddingErrors (failures rt (length (calls w)) cs - 3)]
              else [])"
     "getProvider (env rt) = ''openai'' \<longrightarrow>
          length (filter is_openai_error (console w'))
            = length (filter is_openai_error (console w)) + failures rt (length (calls w)) cs"
    by blast
  show ?thesis
    unfolding Let_def cs_def [symmetric]
    using w'(6) pos [of "length (calls w)"]
    by (intro exI [of _ w']) (simp add: w'(1-5) embedded_failures_length)
qed

lemma openai_always_fails:
  "embedding_outcome (runtime_for ''openai'') k text = Inl (RequestFailed ''connect ECONNREFUSED'')"
proof -
  have "openai_embeddings (net (runtime_for ''openai'')) k t = Inl ''connect ECONNREFUSED''" for t
    by (simp add: runtime_for_def failing_net_def)
  then show ?thesis
    by (simp add: embedding_outcome_def Let_def getProvider_openai)
qed

lemma openai_failures: "failures (runtime_for ''openai'') n cs = length cs"
  by (induction cs arbitrary: n) (simp_all add: openai_always_fails)

lemma openai_embedded: "embedded (runtime_for ''openai'') n cs = []"
  by (induction cs arbitrary: n) (simp_all add: openai_always_fails)

lemma four_chunks: "length (chunkContent (lines_file 100)) = 4"
  by code_simp

text \<open>Indexing a file of 100 lines (4 chunks) while every OpenAI request fails.\<close>

theorem indexProject_absorbs_embedding_failures_witness:
  "fst (indexProject (runtime_for ''openai'') ''p1'' [lines_file 100] ''2024-01-01T00:00:00.000Z'' empty_world)
     = Inr \<lparr>totalFiles = 1, totalChunks = 0, languages = [''javascript'']\<rparr>
   \<and> length (filter is_chunk_warning
        (console (snd (indexProject (runtime_for ''openai'') ''p1'' [lines_file 100]
                         ''2024-01-01T00:00:00.000Z'' empty_world)))) = 3
   \<and> filter is_summary_warning
        (console (snd (indexProject (runtime_for ''openai'') ''p1'' [lines_file 100]
                         ''2024-01-01T00:00:00.000Z'' empty_world))) = [MoreEmbeddingErrors 1]
   \<and> length (calls (snd (indexProject (runtime_for ''openai'') ''p1'' [lines_file 100]
                         ''2024-01-01T00:00:00.000Z'' empty_world))) = 4"
proof -
  have e: "calls empty_world = []" "console empty_world = []" by (simp_all add: empty_world_def)
  have l: "uniq (map language [lines_file 100]) = [''javascript'']"
    by (simp add: lines_file_def uniq_def)
  have c: "concat (map chunkContent [lines_file 100]) = chunkContent (lines_file 100)" by simp
  note t = indexProject_absorbs_embedding_failures
    [of "[lines_file 100]" empty_world "runtime_for ''openai''" "''p1''" "''2024-01-01T00:00:00.000Z''",
     unfolded Let_def c openai_failures openai_embedded four_chunks e l]
  then obtain w' where
    r: "indexProject (runtime_for ''openai'') ''p1'' [lines_file 100] ''2024-01-01T00:00:00.000Z'' empty_world
       = (Inr \<lparr>totalFiles = length [lines_file 100], totalChunks = length ([] :: vector list),
               languages = [''javascript'']\<rparr>, w')"
    and cw: "length (filter is_chunk_warning (console w')) = length (filter is_chunk_warning []) + min 4 3"
    and sw: "filter is_summary_warning (console w')
              = filter is_summary_warning [] @ (if (3::nat) < 4 then [MoreEmbeddingErrors (4 - 3)] else [])"
    and ca: "calls w' = [] @ map (\<lambda>c. EmbeddingCall (content c)) (chunkContent (lines_file 100))"
    by blast
  show ?thesis
    using cw sw ca by (simp add: r four_chunks)
qed




section \<open>Properties of search\<close>

lemma similarity_without_embedding [simp]: "similarity (without_embedding r) = similarity r"
  by (simp add: without_embedding_def)

lemma embedding_without_embedding [simp]: "embedding (without_embedding r) = None"
  by (simp add: without_embedding_def)

lemma slice0_prefix: "prefix (slice0 xs n) xs"
  by (simp add: slice0_def take_is_prefix)

lemma candidates_subset:
  "r \<in> set (candidates st qe options) \<Longrightarrow>
   \<exists>v\<in>set (vectors st). r = with_similarity v (cosineSimilarity qe (embedding v))"
  by (auto simp: candidates_def Let_def split: option.splits if_splits)

lemma length_candidates: "length (candidates st qe options) \<le> length (vectors st)"
  by (auto simp: candidates_def Let_def split: option.splits)

text \<open>The order of the similarities that are not NaN.\<close>

lemma descending_key_le:
  assumes "a \<noteq> NaN" "b \<noteq> NaN"
  shows "descending_key a \<le> descending_key b \<longleftrightarrow> fge a b"
  using assms by (cases a; cases b) (auto simp: fge_def)

lemma descending_key_inj: "descending_key a = descending_key b \<longleftrightarrow> a = b"
  by (cases a; cases b) auto

lemma sorted_descending_key:
  assumes "\<forall>r\<in>set xs. similarity r \<noteq> NaN"
  shows "sorted (map (\<lambda>r. descending_key (similarity r)) xs)
     \<longleftrightarrow> sorted_wrt (\<lambda>a b. fge (similarity a) (similarity b)) xs"
  using assms by (induction xs) (auto simp: descending_key_le)

lemma sort_by_similarity_consistent:
  assumes "\<forall>r\<in>set xs. similarity r \<noteq> NaN"
  shows "sort_by_similarity rt xs = sort_key (\<lambda>r. descending_key (similarity r)) xs"
  using assms by (simp add: sort_by_similarity_def list_all_iff)

lemma sorted_sort_by_similarity:
  assumes "\<forall>r\<in>set xs. similarity r \<noteq> NaN"
  shows "sorted_wrt (\<lambda>a b. fge (similarity a) (similarity b)) (sort_by_similarity rt xs)"
proof -
  let ?k = "\<lambda>r. descending_key (similarity r)"
  have "sorted (map ?k (sort_key ?k xs))" by (rule sorted_sort_key)
  moreover have "\<forall>r\<in>set (sort_key ?k xs). similarity r \<noteq> NaN" using assms by simp
  ultimately show ?thesis
    using sorted_descending_key [of "sort_key ?k xs"]
    by (simp add: sort_by_similarity_consistent [OF assms])
qed

lemma stable_sort_by_similarity:
  assumes "\<forall>r\<in>set xs. similarity r \<noteq> NaN"
  shows "filter (\<lambda>r. similarity r = s) (sort_by_similarity rt xs) = filter (\<lambda>r. similarity r = s) xs"
proof -
  let ?k = "\<lambda>r. descending_key (similarity r)"
  have "filter (\<lambda>r. ?k r = descending_key s) (sort_key ?k xs) = filter (\<lambda>r. ?k r = descending_key s) xs"
    by (rule sort_key_stable)
  then show ?thesis
    by (simp add: sort_by_similarity_consistent [OF assms] descending_key_inj)
qed

lemma mset_sort_by_similarity [simp]: "mset (sort_by_similarity rt xs) = mset xs"
proof -
  have "mset (map (\<lambda>i. xs ! i) order) = mset xs" if "mset order = mset [0 ..< length xs]" for order
  proof -
    have "mset (map (\<lambda>i. xs ! i) order) = image_mset (\<lambda>i. xs ! i) (mset order)" by simp
    also have "\<dots> = image_mset (\<lambda>i. xs ! i) (mset [0 ..< length xs])" by (simp only: that)
    also have "\<dots> = mset (map (\<lambda>i. xs ! i) [0 ..< length xs])" by simp
    also have "\<dots> = mset xs" by (simp only: map_nth)
    finally show ?thesis .
  qed
  then show ?thesis by (simp add: sort_by_similarity_def Let_def)
qed

lemma set_sort_by_similarity [simp]: "set (sort_by_similarity rt xs) = set xs"
  using mset_sort_by_similarity [of rt xs] by (metis set_mset_mset)

lemma length_sort_by_similarity [simp]: "length (sort_by_similarity rt xs) = length xs"
  using mset_sort_by_similarity [of rt xs] by (metis size_mset)

text \<open>The similarity of two embeddings of moderate components that are not negative.\<close>

lemma cosine_moderate_embedding:
  assumes "nonneg_embedding a" "moderate_embedding a" "nonneg_embedding b" "moderate_embedding b"
  shows "finite_nonneg (cosineSimilarity a b) \<and> value_of (cosineSimilarity a b) \<le> 1 + 1 / 2 ^ 18"
proof (cases "\<exists>p q. a = Some p \<and> b = Some q \<and> length p = length q")
  case False
  then have "cosineSimilarity a b = Fin 0"
    by (auto simp: cosineSimilarity_def split: option.splits)
  then show ?thesis by simp
next
  case True
  then obtain p q where pq: "a = Some p" "b = Some q" "length p = length q" by blast
  have "\<exists>s. cosineSimilarity (Some p) (Some q) = Fin s \<and> 0 \<le> s \<and> s \<le> 1 + 1 / 2 ^ 18"
    using assms by (intro cosine_moderate pq(3)) (simp_all add: pq nonneg_embedding_def moderate_embedding_def)
  then show ?thesis unfolding pq by auto
qed

text \<open>The offline embedding has moderate components that are not negative.\<close>

lemma offline_embedding_moderate:
  assumes "length (tokens text) < 2 ^ 32"
  shows "nonneg_embedding (Some (createSimpleEmbedding text))"
    and "moderate_embedding (Some (createSimpleEmbedding text))"
proof -
  have c: "finite_nonneg d \<and> moderate d" if d: "d \<in> set (createSimpleEmbedding text)" for d
  proof -
    obtain x where x: "d = Fin x" "x = 0 \<or> (1 / 2 ^ 69 \<le> x \<and> x \<le> 2 ^ 64)"
      using createSimpleEmbedding_components [OF assms d] by blast
    have "(1 :: real) / 2 ^ 200 \<le> 1 / 2 ^ 69" "(2 :: real) ^ 64 \<le> 2 ^ 200" "(0 :: real) \<le> 1 / 2 ^ 69"
      by simp_all
    then show ?thesis using x by (auto simp: abs_if)
  qed
  show "nonneg_embedding (Some (createSimpleEmbedding text))"
    using c by (simp add: nonneg_embedding_def list_all_iff)
  have "length (createSimpleEmbedding text) = 384"
    by (simp add: createSimpleEmbedding_def Let_def length_accumulate)
  then show "moderate_embedding (Some (createSimpleEmbedding text))"
    using c by (simp add: moderate_embedding_def moderate_vector_def list_all_iff)
qed

text \<open>A search embeds the query once when the project exists, and not at all otherwise.\<close>

lemma searchCode_calls:
  "calls (snd (searchCode rt projectId query options w)) =
     (if vectorStores w projectId = None then calls w else calls w @ [EmbeddingCall query])"
proof (cases "vectorStores w projectId")
  case None
  then show ?thesis by (simp add: searchCode_def)
next
  case (Some st)
  obtain r w1 where c: "createEmbedding rt query w = (r, w1)"
    by (cases "createEmbedding rt query w")
  have "calls w1 = calls w @ [EmbeddingCall query]"
    using calls_createEmbedding [of rt query w] c by simp
  then show ?thesis
    by (cases r) (simp_all add: searchCode_def Some c Let_def)
qed

lemma searchCode_Inr:
  assumes "searchCode rt projectId query options w = (Inr rs, w')"
  obtains st qe where "vectorStores w projectId = Some st"
    and "createEmbedding rt query w = (Inr qe, w')"
    and "rs = map without_embedding
           (slice0 (sort_by_similarity rt (candidates st qe options)) (limit_or_default (opt_limit options)))"
  using assms
  by (auto simp: searchCode_def Let_def split: option.splits prod.splits sum.splits)


text \<open>
  Claim C2, as the code has it. A search that returns results has found the project and
  embedded the query. It returns at most 10 results when no limit is given, at most
  \<open>limit\<close> results for a positive integer \<open>limit\<close>, and never more than the stored vectors;
  no result carries an embedding. When no candidate has the similarity NaN, the results
  are sorted by non-increasing similarity, and the results of equal similarity are the
  first of the candidates of that similarity, in the order of insertion. No similarity is
  negative when neither the query embedding nor a stored embedding has a negative
  component; every similarity is a finite number between 0 and \<open>1 + 2 ^ - 18\<close> when
  moreover the components of these embeddings that are not zero lie between \<open>2 ^ - 200\<close>
  and \<open>2 ^ 200\<close>. The offline embedding of a query is such an embedding.
\<close>

theorem searchCode_results:
  assumes "searchCode rt projectId query options w = (Inr rs, w')"
  shows "\<exists>st qe. vectorStores w projectId = Some st
     \<and> createEmbedding rt query w = (Inr qe, w')
     \<and> length rs \<le> length (vectors st)
     \<and> (opt_limit options = None \<longrightarrow> length rs \<le> 10)
     \<and> (\<forall>n. opt_limit options = Some n \<and> 0 < n \<longrightarrow> length rs \<le> nat n)
     \<and> (\<forall>r\<in>set rs. embedding r = None)
     \<and> ((\<forall>c\<in>set (candidates st qe options). similarity c \<noteq> NaN) \<longrightarrow>
          sorted_wrt (\<lambda>a b. fge (similarity a) (similarity b)) rs
          \<and> (\<forall>s. prefix (filter (\<lambda>r. similarity r = s) rs)
                 (map without_embedding (filter (\<lambda>r. similarity r = s) (candidates st qe options)))))
     \<and> (nonneg_embedding qe \<and> (\<forall>v\<in>set (vectors st). nonneg_embedding (embedding v))
          \<longrightarrow> (\<forall>r\<in>set rs. \<not> fless (similarity r) (Fin 0)))
     \<and> (nonneg_embedding qe \<and> moderate_embedding qe
          \<and> (\<forall>v\<in>set (vectors st). nonneg_embedding (embedding v) \<and> moderate_embedding (embedding v))
          \<longrightarrow> (\<forall>r\<in>set rs. finite_nonneg (similarity r) \<and> value_of (similarity r) \<le> 1 + 1 / 2 ^ 18))
     \<and> (getProvider (env rt) \<noteq> ''openai'' \<and> getProvider (env rt) \<noteq> ''ollama''
          \<and> length (tokens query) < 2 ^ 32
          \<longrightarrow> qe = Some (createSimpleEmbedding query) \<and> nonneg_embedding qe \<and> moderate_embedding qe)"
proof -
  from assms obtain st qe where st: "vectorStores w projectId = Some st"
    and qe: "createEmbedding rt query w = (Inr qe, w')"
    and rs: "rs = map without_embedding
           (slice0 (sort_by_similarity rt (candidates st qe options)) (limit_or_default (opt_limit options)))"
    by (rule searchCode_Inr)
  define cands where "cands = candidates st qe options"
  define sorted_all where "sorted_all = sort_by_similarity rt cands"
  define first where "first = slice0 sorted_all (limit_or_default (opt_limit options))"
  have rs': "rs = map without_embedding first"
    by (simp add: rs first_def sorted_all_def cands_def)
  have pre: "prefix first sorted_all" unfolding first_def by (rule slice0_prefix)
  have len_first: "length first \<le> length (vectors st)"
  proof -
    have "length first \<le> length sorted_all" using pre by (rule prefix_length_le)
    also have "\<dots> \<le> length (vectors st)"
      by (simp add: sorted_all_def cands_def length_candidates)
    finally show ?thesis .
  qed
  have len: "length rs \<le> length (vectors st)" using len_first by (simp add: rs')
  have l1: "opt_limit options = None \<longrightarrow> length rs \<le> 10"
    by (simp add: rs' first_def limit_or_default_def slice0_def)
  have l2: "\<forall>n. opt_limit options = Some n \<and> 0 < n \<longrightarrow> length rs \<le> nat n"
    by (auto simp: rs' first_def limit_or_default_def slice0_def)
  have emb: "\<forall>r\<in>set rs. embedding r = None" by (auto simp: rs')
  have ord: "(\<forall>c\<in>set (candidates st qe options). similarity c \<noteq> NaN) \<longrightarrow>
          sorted_wrt (\<lambda>a b. fge (similarity a) (similarity b)) rs
          \<and> (\<forall>s. prefix (filter (\<lambda>r. similarity r = s) rs)
                 (map without_embedding (filter (\<lambda>r. similarity r = s) (candidates st qe options))))"
  proof (intro impI conjI allI)
    assume "\<forall>c\<in>set (candidates st qe options). similarity c \<noteq> NaN"
    then have nn: "\<forall>r\<in>set cands. similarity r \<noteq> NaN" by (simp add: cands_def)
    have "sorted_wrt (\<lambda>a b. fge (similarity a) (similarity b)) sorted_all"
      unfolding sorted_all_def using nn by (rule sorted_sort_by_similarity)
    then have "sorted_wrt (\<lambda>a b. fge (similarity a) (similarity b)) first"
      using pre by (auto simp: prefix_def sorted_wrt_append)
    then show "sorted_wrt (\<lambda>a b. fge (similarity a) (similarity b)) rs"
      by (simp add: rs' sorted_wrt_map)
    fix s
    have "prefix (filter (\<lambda>r. similarity r = s) first) (filter (\<lambda>r. similarity r = s) sorted_all)"
      using pre by (rule filter_mono_prefix)
    then have "prefix (filter (\<lambda>r. similarity r = s) first) (filter (\<lambda>r. similarity r = s) cands)"
      by (simp add: sorted_all_def stable_sort_by_similarity [OF nn])
    then have "prefix (map without_embedding (filter (\<lambda>r. similarity r = s) first))
                      (map without_embedding (filter (\<lambda>r. similarity r = s) cands))"
      by (rule map_mono_prefix)
    then show "prefix (filter (\<lambda>r. similarity r = s) rs)
                 (map without_embedding (filter (\<lambda>r. similarity r = s) (candidates st qe options)))"
      by (simp add: rs' filter_map comp_def cands_def)
  qed
  have mem: "\<exists>v\<in>set (vectors st). similarity r = cosineSimilarity qe (embedding v)"
    if r: "r \<in> set rs" for r
  proof -
    from r obtain t where t: "t \<in> set first" "r = without_embedding t" by (auto simp: rs')
    then have "t \<in> set sorted_all" using pre by (auto simp: prefix_def)
    then have "t \<in> set cands" by (simp add: sorted_all_def)
    then obtain v where "v \<in> set (vectors st)" "t = with_similarity v (cosineSimilarity qe (embedding v))"
      unfolding cands_def using candidates_subset by blast
    then show ?thesis using t by (auto simp: with_similarity_def)
  qed
  have nn: "nonneg_embedding qe \<and> (\<forall>v\<in>set (vectors st). nonneg_embedding (embedding v))
          \<longrightarrow> (\<forall>r\<in>set rs. \<not> fless (similarity r) (Fin 0))"
  proof (intro impI ballI)
    fix r assume h: "nonneg_embedding qe \<and> (\<forall>v\<in>set (vectors st). nonneg_embedding (embedding v))"
      and r: "r \<in> set rs"
    from mem [OF r] obtain v where "v \<in> set (vectors st)" "similarity r = cosineSimilarity qe (embedding v)"
      by blast
    with h show "\<not> fless (similarity r) (Fin 0)" by (simp add: cosine_not_negative)
  qed
  have md: "nonneg_embedding qe \<and> moderate_embedding qe
          \<and> (\<forall>v\<in>set (vectors st). nonneg_embedding (embedding v) \<and> moderate_embedding (embedding v))
          \<longrightarrow> (\<forall>r\<in>set rs. finite_nonneg (similarity r) \<and> value_of (similarity r) \<le> 1 + 1 / 2 ^ 18)"
  proof (intro impI ballI)
    fix r assume h: "nonneg_embedding qe \<and> moderate_embedding qe
          \<and> (\<forall>v\<in>set (vectors st). nonneg_embedding (embedding v) \<and> moderate_embedding (embedding v))"
      and r: "r \<in> set rs"
    from mem [OF r] obtain v where v: "v \<in> set (vectors st)" "similarity r = cosineSimilarity qe (embedding v)"
      by blast
    have "finite_nonneg (cosineSimilarity qe (embedding v))
        \<and> value_of (cosineSimilarity qe (embedding v)) \<le> 1 + 1 / 2 ^ 18"
      using h v(1) by (intro cosine_moderate_embedding) simp_all
    then show "finite_nonneg (similarity r) \<and> value_of (similarity r) \<le> 1 + 1 / 2 ^ 18"
      by (simp only: v(2))
  qed
  have off: "getProvider (env rt) \<noteq> ''openai'' \<and> getProvider (env rt) \<noteq> ''ollama''
          \<and> length (tokens query) < 2 ^ 32
          \<longrightarrow> qe = Some (createSimpleEmbedding query) \<and> nonneg_embedding qe \<and> moderate_embedding qe"
  proof
    assume h: "getProvider (env rt) \<noteq> ''openai'' \<and> getProvider (env rt) \<noteq> ''ollama''
          \<and> length (tokens query) < 2 ^ 32"
    then have e: "qe = Some (createSimpleEmbedding query)"
      using qe by (auto simp: createEmbedding_def Let_def)
    show "qe = Some (createSimpleEmbedding query) \<and> nonneg_embedding qe \<and> moderate_embedding qe"
      using h offline_embedding_moderate [of query] by (simp add: e)
  qed
  show ?thesis
    by (intro exI [of _ st] exI [of _ qe] conjI st qe len l1 l2 emb ord nn md off)
qed

text \<open>The stored example project, as indexing leaves it, and a search in it.\<close>

lemma chunkContent_two_lines:
  "chunkContent (lines_file 2) =
     [summary_chunk (lines_file 2) [''x'', ''x''],
      \<lparr>path = ''src/app.js'', fileName = ''app.js'', language = ''javascript'', folder = ''src'',
       content = [CHR ''x'', nl, CHR ''x''], startLine = 1, endLine = 2, isSummary = False\<rparr>]"
  by code_simp

lemma getProvider_flip: "getProvider (env flip_runtime) = ''openai''"
  by (simp add: getProvider_def flip_runtime_def toLowerCase_def toLowerCase_char_def)

lemma flip_embed:
  "createEmbedding flip_runtime text w =
     (Inr (Some [if Suc (length (calls w)) \<le> 2 then Fin 1 else Fin (- 1)]),
      w\<lparr>calls := calls w @ [EmbeddingCall text]\<rparr>)"
proof -
  have "openai_embeddings (net flip_runtime) n t = Inr (Some [if n \<le> 2 then Fin 1 else Fin (- 1)])" for n t
    by (simp add: flip_runtime_def failing_net_def)
  then show ?thesis
    by (simp add: createEmbedding_def createOpenAIEmbedding_def getProvider_flip Let_def)
qed

lemma flip_world_eq:
  "flip_world =
     \<lparr>vectorStores =
        [''p1'' \<mapsto> \<lparr>vectors = flip_vectors, files = [lines_file 2],
                     indexedAt = ''2024-01-01T00:00:00.000Z'',
                     stats = \<lparr>totalFiles = 1, totalChunks = length flip_vectors,
                               languages = [language (lines_file 2)]\<rparr>\<rparr>],
      console = [IndexingProject ''p1'' 1, IndexedChunks 2 ''p1''],
      calls = [EmbeddingCall (content (summary_chunk (lines_file 2) [''x'', ''x''])),
               EmbeddingCall [CHR ''x'', nl, CHR ''x'']]\<rparr>"
  by (simp add: flip_world_def indexProject_def chunkContent_two_lines flip_embed
      emit_def Let_def empty_world_def uniq_def flip_vectors_def)

lemma round64_one: "round64 1 = Fin 1" "round64 (- 1) = Fin (- 1)"
  using round64_of_int [of 1] round64_of_int [of "- 1"] by simp_all

lemma cosine_opposite: "cosineSimilarity (Some [Fin (- 1)]) (Some [Fin 1]) = Fin (- 1)"
  by (simp add: cosineSimilarity_def cosine_sums_def round64_one fgt_def)

lemma flip_query: 
  "createEmbedding flip_runtime ''x'' flip_world =
     (Inr (Some [Fin (- 1)]), flip_world\<lparr>calls := calls flip_world @ [EmbeddingCall ''x'']\<rparr>)"
  by (simp add: flip_embed flip_world_eq)

lemma flip_candidates:
  "candidates \<lparr>vectors = flip_vectors, files = fs, indexedAt = t, stats = s\<rparr> (Some [Fin (- 1)])
     (no_options\<lparr>opt_limit := l\<rparr>)
   = map (\<lambda>v. with_similarity v (Fin (- 1))) flip_vectors"
  by (simp add: candidates_def no_options_def flip_vectors_def with_embedding_def cosine_opposite)

lemma flip_sorted:
  "sort_by_similarity rt (map (\<lambda>v. with_similarity v (Fin (- 1))) flip_vectors)
     = map (\<lambda>v. with_similarity v (Fin (- 1))) flip_vectors"
  by (simp add: sort_by_similarity_def flip_vectors_def with_similarity_def)

lemma flip_search:
  "searchCode flip_runtime ''p1'' ''x'' (no_options\<lparr>opt_limit := l\<rparr>) flip_world =
     (Inr (map without_embedding
            (slice0 (map (\<lambda>v. with_similarity v (Fin (- 1))) flip_vectors) (limit_or_default l))),
      flip_world\<lparr>calls := calls flip_world @ [EmbeddingCall ''x'']\<rparr>)"
proof -
  have st: "vectorStores flip_world ''p1'' =
      Some \<lparr>vectors = flip_vectors, files = [lines_file 2],
            indexedAt = ''2024-01-01T00:00:00.000Z'',
            stats = \<lparr>totalFiles = 1, totalChunks = length flip_vectors, languages = [language (lines_file 2)]\<rparr>\<rparr>"
    by (simp add: flip_world_eq)
  show ?thesis
    unfolding searchCode_def st flip_query
    by (simp add: flip_candidates flip_sorted Let_def)
qed

text \<open>The example project indexed in demo mode, and a search in it.\<close>

lemma demo_embed:
  "createEmbedding (runtime_for ''demo'') text w =
     (Inr (Some (createSimpleEmbedding text)), w\<lparr>calls := calls w @ [EmbeddingCall text]\<rparr>)"
  by (simp add: createEmbedding_def getProvider_demo Let_def)

lemma demo_world_eq:
  "demo_world =
     \<lparr>vectorStores =
        [''p1'' \<mapsto> \<lparr>vectors = demo_vectors, files = [lines_file 2],
                     indexedAt = ''2024-01-01T00:00:00.000Z'',
                     stats = \<lparr>totalFiles = 1, totalChunks = length demo_vectors,
                               languages = [language (lines_file 2)]\<rparr>\<rparr>],
      console = [IndexingProject ''p1'' 1, IndexedChunks 2 ''p1''],
      calls = [EmbeddingCall (content (summary_chunk (lines_file 2) [''x'', ''x''])),
               EmbeddingCall [CHR ''x'', nl, CHR ''x'']]\<rparr>"
  by (simp add: demo_world_def indexProject_def chunkContent_two_lines demo_embed
      emit_def Let_def empty_world_def uniq_def demo_vectors_def)

lemma demo_tokens:
  "length (tokens ''chunk of code'') < 2 ^ 32"
  "length (tokens (content (summary_chunk (lines_file 2) [''x'', ''x'']))) < 2 ^ 32"
  "length (tokens [CHR ''x'', nl, CHR ''x'']) < 2 ^ 32"
proof -
  have "tokens ''chunk of code'' = [''chunk'', ''code'']" by code_simp
  then show "length (tokens ''chunk of code'') < 2 ^ 32" by simp
  have "length (tokens (content (summary_chunk (lines_file 2) [''x'', ''x'']))) = 7" by code_simp
  then show "length (tokens (content (summary_chunk (lines_file 2) [''x'', ''x'']))) < 2 ^ 32" by simp
  have "tokens [CHR ''x'', nl, CHR ''x''] = []" by code_simp
  then show "length (tokens [CHR ''x'', nl, CHR ''x'']) < 2 ^ 32" by simp
qed

lemma demo_vectors_moderate:
  "\<forall>v\<in>set demo_vectors. nonneg_embedding (embedding v) \<and> moderate_embedding (embedding v)"
  using offline_embedding_moderate [OF demo_tokens(2)] offline_embedding_moderate [OF demo_tokens(3)]
  by (simp add: demo_vectors_def chunkContent_two_lines with_embedding_def)

lemma demo_search:
  "\<exists>rs. searchCode (runtime_for ''demo'') ''p1'' ''chunk of code'' no_options demo_world =
     (Inr rs, demo_world\<lparr>calls := calls demo_world @ [EmbeddingCall ''chunk of code'']\<rparr>)
     \<and> length rs = 2"
proof -
  have st: "vectorStores demo_world ''p1'' =
      Some \<lparr>vectors = demo_vectors, files = [lines_file 2],
            indexedAt = ''2024-01-01T00:00:00.000Z'',
            stats = \<lparr>totalFiles = 1, totalChunks = length demo_vectors, languages = [language (lines_file 2)]\<rparr>\<rparr>"
    by (simp add: demo_world_eq)
  have c: "length (candidates \<lparr>vectors = demo_vectors, files = fs, indexedAt = t, stats = s\<rparr> qe no_options) = 2"
    for fs t s qe
    by (simp add: candidates_def no_options_def demo_vectors_def chunkContent_two_lines)
  have l: "limit_or_default (opt_limit no_options) = 10"
    by (simp add: limit_or_default_def no_options_def)
  show ?thesis
    unfolding searchCode_def st demo_embed l
    by (simp add: Let_def c slice0_def)
qed

text \<open>A search for at most one result in the example project of the OpenAI provider, and a
  search in the example project of the offline embedding.\<close>

theorem searchCode_results_witness:
  "map_sum id length
     (fst (searchCode flip_runtime ''p1'' ''x'' (no_options\<lparr>opt_limit := Some 1\<rparr>) flip_world))
   = Inr 1
   \<and> sorted_wrt (\<lambda>a b. fge (similarity a) (similarity b))
       (projr (fst (searchCode flip_runtime ''p1'' ''x'' (no_options\<lparr>opt_limit := Some 1\<rparr>) flip_world)))
   \<and> list_all (\<lambda>r. embedding r = None)
       (projr (fst (searchCode flip_runtime ''p1'' ''x'' (no_options\<lparr>opt_limit := Some 1\<rparr>) flip_world)))
   \<and> length (projr (fst (searchCode (runtime_for ''demo'') ''p1'' ''chunk of code'' no_options demo_world))) = 2
   \<and> list_all (\<lambda>r. finite_nonneg (similarity r) \<and> value_of (similarity r) \<le> 1 + 1 / 2 ^ 18)
       (projr (fst (searchCode (runtime_for ''demo'') ''p1'' ''chunk of code'' no_options demo_world)))"
proof -
  define rs where "rs = map without_embedding
            (slice0 (map (\<lambda>v. with_similarity v (Fin (- 1))) flip_vectors) (limit_or_default (Some 1)))"
  have eq: "searchCode flip_runtime ''p1'' ''x'' (no_options\<lparr>opt_limit := Some 1\<rparr>) flip_world
      = (Inr rs, flip_world\<lparr>calls := calls flip_world @ [EmbeddingCall ''x'']\<rparr>)"
    unfolding rs_def by (rule flip_search)
  have len: "length rs = 1"
    by (simp add: rs_def limit_or_default_def slice0_def flip_vectors_def)
  obtain st qe where f: "vectorStores flip_world ''p1'' = Some st"
      "createEmbedding flip_runtime ''x'' flip_world
         = (Inr qe, flip_world\<lparr>calls := calls flip_world @ [EmbeddingCall ''x'']\<rparr>)"
      "\<forall>r\<in>set rs. embedding r = None"
      "(\<forall>c\<in>set (candidates st qe (no_options\<lparr>opt_limit := Some 1\<rparr>)). similarity c \<noteq> NaN) \<longrightarrow>
          sorted_wrt (\<lambda>a b. fge (similarity a) (similarity b)) rs"
    using searchCode_results [OF eq] by blast
  have steq: "st = \<lparr>vectors = flip_vectors, files = [lines_file 2],
            indexedAt = ''2024-01-01T00:00:00.000Z'',
            stats = \<lparr>totalFiles = 1, totalChunks = length flip_vectors, languages = [language (lines_file 2)]\<rparr>\<rparr>"
    using f(1) by (simp add: flip_world_eq)
  have qeeq: "qe = Some [Fin (- 1)]" using f(2) by (simp add: flip_query)
  have "candidates st qe (no_options\<lparr>opt_limit := Some 1\<rparr>)
      = map (\<lambda>v. with_similarity v (Fin (- 1))) flip_vectors"
    unfolding steq qeeq by (rule flip_candidates)
  then have "\<forall>c\<in>set (candidates st qe (no_options\<lparr>opt_limit := Some 1\<rparr>)). similarity c \<noteq> NaN"
    by (simp add: with_similarity_def)
  then have srt: "sorted_wrt (\<lambda>a b. fge (similarity a) (similarity b)) rs" using f(4) by blast
  \<comment> \<open>the offline project\<close>
  obtain ds where d: "searchCode (runtime_for ''demo'') ''p1'' ''chunk of code'' no_options demo_world =
     (Inr ds, demo_world\<lparr>calls := calls demo_world @ [EmbeddingCall ''chunk of code'']\<rparr>)"
     "length ds = 2"
    using demo_search by blast
  obtain dst dqe where g: "vectorStores demo_world ''p1'' = Some dst"
      "nonneg_embedding dqe \<and> moderate_embedding dqe
          \<and> (\<forall>v\<in>set (vectors dst). nonneg_embedding (embedding v) \<and> moderate_embedding (embedding v))
          \<longrightarrow> (\<forall>r\<in>set ds. finite_nonneg (similarity r) \<and> value_of (similarity r) \<le> 1 + 1 / 2 ^ 18)"
      "getProvider (env (runtime_for ''demo'')) \<noteq> ''openai'' \<and> getProvider (env (runtime_for ''demo'')) \<noteq> ''ollama''
          \<and> length (tokens ''chunk of code'') < 2 ^ 32
          \<longrightarrow> dqe = Some (createSimpleEmbedding ''chunk of code'') \<and> nonneg_embedding dqe \<and> moderate_embedding dqe"
    using searchCode_results [OF d(1)] by blast
  have "getProvider (env (runtime_for ''demo'')) \<noteq> ''openai'' \<and> getProvider (env (runtime_for ''demo'')) \<noteq> ''ollama''
          \<and> length (tokens ''chunk of code'') < 2 ^ 32"
    using demo_tokens(1) by (simp add: getProvider_demo)
  then have q: "nonneg_embedding dqe \<and> moderate_embedding dqe"
    using g(3) by blast
  have "vectors dst = demo_vectors" using g(1) by (auto simp: demo_world_eq)
  then have "\<forall>v\<in>set (vectors dst). nonneg_embedding (embedding v) \<and> moderate_embedding (embedding v)"
    using demo_vectors_moderate by simp
  then have b: "\<forall>r\<in>set ds. finite_nonneg (similarity r) \<and> value_of (similarity r) \<le> 1 + 1 / 2 ^ 18"
    using g(2) q by blast
  show ?thesis
    using len srt f(3) d(2) b by (simp add: eq d(1) list_all_iff)
qed

text \<open>
  Claim C2 as stated fails: with \<open>limit = 0\<close> the search in the example project returns 2
  results, more than the limit, and their similarities are \<open>-1\<close>, outside \<open>[0, 1]\<close>.
\<close>

theorem search_limit_counterexample:
  "map_sum id (map similarity)
     (fst (searchCode flip_runtime ''p1'' ''x'' (no_options\<lparr>opt_limit := Some 0\<rparr>) flip_world))
   = Inr [Fin (- 1), Fin (- 1)]"
  by (simp add: flip_search limit_or_default_def slice0_def flip_vectors_def with_similarity_def)

text \<open>
  Claim C10, as the code has it. When the limit is absent (\<open>undefined\<close>, \<open>null\<close>) or 0,
  the search behaves exactly as with the limit 10. Whenever the project exists and the
  query can be embedded, the search returns the first 10 candidates, or all of them when
  there are fewer, for such a limit; the first \<open>n\<close>, or all of them, for a positive limit
  \<open>n\<close>; and the candidates without the last \<open>n\<close>, which may be none, for a negative limit
  \<open>-n\<close>.
\<close>

theorem searchCode_falsy_limit:
  "(opt_limit options = None \<or> opt_limit options = Some 0 \<longrightarrow>
      searchCode rt projectId query options w
        = searchCode rt projectId query (options\<lparr>opt_limit := Some 10\<rparr>) w)
   \<and> (\<forall>st qe w'. vectorStores w projectId = Some st \<and> createEmbedding rt query w = (Inr qe, w')
         \<longrightarrow> (\<exists>rs. searchCode rt projectId query options w = (Inr rs, w')
                \<and> length rs =
                    (case opt_limit options of
                       None \<Rightarrow> min 10 (length (candidates st qe options))
                     | Some n \<Rightarrow>
                         if n = 0 then min 10 (length (candidates st qe options))
                         else if 0 < n then min (nat n) (length (candidates st qe options))
                         else length (candidates st qe options) - nat (- n))))"
proof (intro conjI impI allI)
  assume a: "opt_limit options = None \<or> opt_limit options = Some 0"
  have c: "candidates st qe (options\<lparr>opt_limit := Some 10\<rparr>) = candidates st qe options" for st qe
    by (simp add: candidates_def)
  have l: "limit_or_default (opt_limit options) = 10"
    using a by (auto simp: limit_or_default_def)
  have l': "limit_or_default (Some 10) = 10"
    by (simp add: limit_or_default_def)
  show "searchCode rt projectId query options w
        = searchCode rt projectId query (options\<lparr>opt_limit := Some 10\<rparr>) w"
    by (auto simp: searchCode_def Let_def c l l' split: option.splits prod.splits sum.splits)
next
  fix st qe w'
  assume h: "vectorStores w projectId = Some st \<and> createEmbedding rt query w = (Inr qe, w')"
  let ?rs = "map without_embedding
      (slice0 (sort_by_similarity rt (candidates st qe options)) (limit_or_default (opt_limit options)))"
  have "searchCode rt projectId query options w = (Inr ?rs, w')"
    using h by (simp add: searchCode_def Let_def)
  moreover have "length ?rs =
      (case opt_limit options of
         None \<Rightarrow> min 10 (length (candidates st qe options))
       | Some n \<Rightarrow>
           if n = 0 then min 10 (length (candidates st qe options))
           else if 0 < n then min (nat n) (length (candidates st qe options))
           else length (candidates st qe options) - nat (- n))"
    by (auto simp: slice0_def limit_or_default_def min.commute split: option.splits)
  ultimately show "\<exists>rs. searchCode rt projectId query options w = (Inr rs, w')
      \<and> length rs =
          (case opt_limit options of
             None \<Rightarrow> min 10 (length (candidates st qe options))
           | Some n \<Rightarrow>
               if n = 0 then min 10 (length (candidates st qe options))
               else if 0 < n then min (nat n) (length (candidates st qe options))
               else length (candidates st qe options) - nat (- n))"
    by blast
qed

text \<open>A limit of 0 in the example project returns both stored chunks, as the limit 10 and
  no limit do; the limit \<open>-1\<close> returns one of them.\<close>

theorem searchCode_falsy_limit_witness:
  "map_sum id length
     (fst (searchCode flip_runtime ''p1'' ''x'' (no_options\<lparr>opt_limit := Some 0\<rparr>) flip_world))
   = Inr 2
   \<and> searchCode flip_runtime ''p1'' ''x'' (no_options\<lparr>opt_limit := Some 0\<rparr>) flip_world
     = searchCode flip_runtime ''p1'' ''x'' (no_options\<lparr>opt_limit := Some 10\<rparr>) flip_world
   \<and> searchCode flip_runtime ''p1'' ''x'' no_options flip_world
     = searchCode flip_runtime ''p1'' ''x'' (no_options\<lparr>opt_limit := Some 10\<rparr>) flip_world
   \<and> map_sum id length
     (fst (searchCode flip_runtime ''p1'' ''x'' (no_options\<lparr>opt_limit := Some (- 1)\<rparr>) flip_world))
   = Inr 1"
proof -
  let ?o = "no_options\<lparr>opt_limit := Some 0\<rparr>"
  let ?m = "no_options\<lparr>opt_limit := Some (- 1)\<rparr>"
  let ?st = "\<lparr>vectors = flip_vectors, files = [lines_file 2],
            indexedAt = ''2024-01-01T00:00:00.000Z'',
            stats = \<lparr>totalFiles = 1, totalChunks = length flip_vectors, languages = [language (lines_file 2)]\<rparr>\<rparr>"
  let ?w = "flip_world\<lparr>calls := calls flip_world @ [EmbeddingCall ''x'']\<rparr>"
  have h: "opt_limit ?o = None \<or> opt_limit ?o = Some 0" by simp
  have h': "opt_limit no_options = None \<or> opt_limit no_options = Some 0"
    by (simp add: no_options_def)
  note t = searchCode_falsy_limit [of ?o flip_runtime "''p1''" "''x''" flip_world]
  note t' = searchCode_falsy_limit [of no_options flip_runtime "''p1''" "''x''" flip_world]
  note tm = searchCode_falsy_limit [of ?m flip_runtime "''p1''" "''x''" flip_world]
  have st: "vectorStores flip_world ''p1'' = Some ?st"
    by (simp add: flip_world_eq)
  have pre: "vectorStores flip_world ''p1'' = Some ?st
      \<and> createEmbedding flip_runtime ''x'' flip_world = (Inr (Some [Fin (- 1)]), ?w)"
    using st flip_query by simp
  obtain rs where
    rs: "searchCode flip_runtime ''p1'' ''x'' ?o flip_world = (Inr rs, ?w)"
      "length rs = (case opt_limit ?o of
                       None \<Rightarrow> min 10 (length (candidates ?st (Some [Fin (- 1)]) ?o))
                     | Some n \<Rightarrow>
                         if n = 0 then min 10 (length (candidates ?st (Some [Fin (- 1)]) ?o))
                         else if 0 < n then min (nat n) (length (candidates ?st (Some [Fin (- 1)]) ?o))
                         else length (candidates ?st (Some [Fin (- 1)]) ?o) - nat (- n))"
    using t [THEN conjunct2, rule_format, OF pre] by blast
  have "length rs = 2"
    unfolding rs(2) flip_candidates by (simp add: flip_vectors_def)
  then have 1: "map_sum id length (fst (searchCode flip_runtime ''p1'' ''x'' ?o flip_world)) = Inr 2"
    by (simp add: rs(1))
  obtain ms where
    ms: "searchCode flip_runtime ''p1'' ''x'' ?m flip_world = (Inr ms, ?w)"
      "length ms = (case opt_limit ?m of
                       None \<Rightarrow> min 10 (length (candidates ?st (Some [Fin (- 1)]) ?m))
                     | Some n \<Rightarrow>
                         if n = 0 then min 10 (length (candidates ?st (Some [Fin (- 1)]) ?m))
                         else if 0 < n then min (nat n) (length (candidates ?st (Some [Fin (- 1)]) ?m))
                         else length (candidates ?st (Some [Fin (- 1)]) ?m) - nat (- n))"
    using tm [THEN conjunct2, rule_format, OF pre] by blast
  have "length ms = 1"
    unfolding ms(2) flip_candidates by (simp add: flip_vectors_def)
  then have 4: "map_sum id length (fst (searchCode flip_runtime ''p1'' ''x'' ?m flip_world)) = Inr 1"
    by (simp add: ms(1))
  have 2: "searchCode flip_runtime ''p1'' ''x'' ?o flip_world
     = searchCode flip_runtime ''p1'' ''x'' (no_options\<lparr>opt_limit := Some 10\<rparr>) flip_world"
    using t [THEN conjunct1] h by simp
  have 3: "searchCode flip_runtime ''p1'' ''x'' no_options flip_world
     = searchCode flip_runtime ''p1'' ''x'' (no_options\<lparr>opt_limit := Some 10\<rparr>) flip_world"
    using t' [THEN conjunct1] h' by simp
  show ?thesis using 1 2 3 4 by simp
qed

text \<open>
  Claim C10 as stated fails in its conclusion that no limit requests zero results: with the
  limit \<open>-2\<close> the search in the example project, which stores 2 chunks, returns none
  (\<open>slice(0, -2)\<close> drops the last two).
\<close>

theorem search_negative_limit_counterexample:
  "fst (searchCode flip_runtime ''p1'' ''x'' (no_options\<lparr>opt_limit := Some (- 2)\<rparr>) flip_world)
   = Inr []"
  by (simp add: flip_search limit_or_default_def slice0_def flip_vectors_def)

text \<open>
  Claim C9. A search on an identifier with no project, in particular after
  \<open>deleteProject\<close>, fails with \<open>ProjectNotFound\<close> and leaves the world as it was: no
  provider call is recorded. \<open>explainFile\<close> on an existing project and a path that none of
  its files has fails with \<open>FileNotFound\<close>, again in an unchanged world.
\<close>

theorem lookup_failures_before_provider_calls:
  "(vectorStores w projectId = None \<longrightarrow>
      searchCode rt projectId query options w = (Inl (ProjectNotFound projectId), w))
   \<and> searchCode rt projectId query options (snd (deleteProject projectId w))
        = (Inl (ProjectNotFound projectId), snd (deleteProject projectId w))
   \<and> calls (snd (deleteProject projectId w)) = calls w
   \<and> (\<forall>st. vectorStores w projectId = Some st \<and> filePath \<notin> set (map path (files st)) \<longrightarrow>
         explainFile rt projectId filePath w = (Inl (FileNotFound filePath), w))"
proof (intro conjI allI impI)
  show "searchCode rt projectId query options w = (Inl (ProjectNotFound projectId), w)"
    if "vectorStores w projectId = None"
    using that by (simp add: searchCode_def)
  show "searchCode rt projectId query options (snd (deleteProject projectId w))
        = (Inl (ProjectNotFound projectId), snd (deleteProject projectId w))"
    by (simp add: searchCode_def deleteProject_def)
  show "calls (snd (deleteProject projectId w)) = calls w"
    by (simp add: deleteProject_def)
next
  fix st
  assume h: "vectorStores w projectId = Some st \<and> filePath \<notin> set (map path (files st))"
  then have "find (\<lambda>f. path f = filePath) (files st) = None"
    by (auto simp: find_None_iff)
  with h show "explainFile rt projectId filePath w = (Inl (FileNotFound filePath), w)"
    by (simp add: explainFile_def getProjectFiles_def)
qed


text \<open>A missing project, a deleted project and a missing file in the example world.\<close>

theorem lookup_failures_witness:
  "searchCode flip_runtime ''p2'' ''x'' no_options flip_world
     = (Inl (ProjectNotFound ''p2''), flip_world)
   \<and> fst (searchCode flip_runtime ''p1'' ''x'' no_options (snd (deleteProject ''p1'' flip_world)))
     = Inl (ProjectNotFound ''p1'')
   \<and> explainFile flip_runtime ''p1'' ''missing.js'' flip_world
     = (Inl (FileNotFound ''missing.js''), flip_world)"
proof -
  note t = lookup_failures_before_provider_calls [of flip_world "''p2''" flip_runtime "''x''" no_options "''missing.js''"]
  note t' = lookup_failures_before_provider_calls [of flip_world "''p1''" flip_runtime "''x''" no_options "''missing.js''"]
  have n: "vectorStores flip_world ''p2'' = None" by (simp add: flip_world_eq)
  have st: "vectorStores flip_world ''p1'' =
      Some \<lparr>vectors = flip_vectors, files = [lines_file 2],
            indexedAt = ''2024-01-01T00:00:00.000Z'',
            stats = \<lparr>totalFiles = 1, totalChunks = length flip_vectors, languages = [language (lines_file 2)]\<rparr>\<rparr>"
    by (simp add: flip_world_eq)
  have p: "''missing.js'' \<notin> set (map path [lines_file 2])" by (simp add: lines_file_def)
  have 1: "searchCode flip_runtime ''p2'' ''x'' no_options flip_world
     = (Inl (ProjectNotFound ''p2''), flip_world)"
    using t n by blast
  have 2: "fst (searchCode flip_runtime ''p1'' ''x'' no_options (snd (deleteProject ''p1'' flip_world)))
     = Inl (ProjectNotFound ''p1'')"
    using t' by simp
  have 3: "explainFile flip_runtime ''p1'' ''missing.js'' flip_world
     = (Inl (FileNotFound ''missing.js''), flip_world)"
    using t' st p by simp
  show ?thesis using 1 2 3 by blast
qed



section \<open>Properties of the answering service\<close>

text \<open>The two returns of \<open>answerQuestion\<close>: without chunks, and with the answer of the
  completion provider; the confidence is one of the three labels in both.\<close>

lemma answerQuestion_no_results:
  assumes "searchCode rt projectId question (options\<lparr>opt_limit := Some 8\<rparr>)
             (emit (ProcessingQuestion projectId question) w) = (Inr [], w')"
  shows "answerQuestion rt projectId question options w =
           (Inr \<lparr>answer = no_results_answer, references = [], confidence = ''low'',
                  relevantFiles = None, provider = None\<rparr>, w')"
  using assms by (simp add: answerQuestion_def Let_def)

lemma answerQuestion_no_results_calls:
  assumes "searchCode rt projectId question (options\<lparr>opt_limit := Some 8\<rparr>)
             (emit (ProcessingQuestion projectId question) w) = (Inr [], w')"
  shows "calls (snd (answerQuestion rt projectId question options w))
           = calls w @ [EmbeddingCall question]"
proof -
  have "vectorStores (emit (ProcessingQuestion projectId question) w) projectId \<noteq> None"
    using assms by (auto simp: searchCode_def split: option.splits)
  then have "calls w' = calls (emit (ProcessingQuestion projectId question) w) @ [EmbeddingCall question]"
    using searchCode_calls [of rt projectId question "options\<lparr>opt_limit := Some 8\<rparr>"
        "emit (ProcessingQuestion projectId question) w"] assms
    by simp
  then show ?thesis
    by (simp add: answerQuestion_no_results [OF assms] emit_def)
qed

lemma answerQuestion_answered:
  assumes "searchCode rt projectId question (options\<lparr>opt_limit := Some 8\<rparr>)
             (emit (ProcessingQuestion projectId question) w) = (Inr (c # cs), w1)"
    and "generateAnswer rt question (buildContext (c # cs)) w1 = (Inr text, w2)"
  shows "answerQuestion rt projectId question options w =
           (Inr \<lparr>answer = text, references = formatReferences (c # cs),
                  confidence = confidence_of (similarity c),
                  relevantFiles = Some (uniq (map path (c # cs))),
                  provider = getProviderConfig_name (env rt)\<rparr>, w2)"
  using assms by (simp add: answerQuestion_def Let_def)

lemma confidence_of_label: "confidence_of s \<in> {''high'', ''medium'', ''low''}"
  by (simp add: confidence_of_def)

lemma answerQuestion_confidence:
  assumes "answerQuestion rt projectId question options w = (Inr r, w')"
  shows "confidence r \<in> {''high'', ''medium'', ''low''}"
proof -
  have "confidence r = ''low'' \<or> (\<exists>s. confidence r = confidence_of s)"
    using assms
    by (auto simp: answerQuestion_def Let_def split: prod.splits sum.splits list.splits)
  then show ?thesis
    by (elim disjE exE) (simp_all add: confidence_of_def)
qed

text \<open>
  Claim C5 on the code: asking a question about a project without chunks, in demo mode.
  The result is the fixed message with no references and low confidence, and only the
  query embedding was requested, no completion; but the properties \<open>relevantFiles\<close> and
  \<open>provider\<close> are missing from it, although the provider has the name \<open>Demo Mode\<close>.
\<close>

theorem answerQuestion_no_results_shape:
  "answerQuestion (runtime_for ''demo'') ''p1'' ''what does add do?'' no_options (empty_project_world ''demo'')
     = (Inr \<lparr>answer = no_results_answer, references = [], confidence = ''low'',
              relevantFiles = None, provider = None\<rparr>,
        \<lparr>vectorStores = vectorStores (empty_project_world ''demo''),
         console = [IndexingProject ''p1'' 0, IndexedChunks 0 ''p1'',
                    ProcessingQuestion ''p1'' ''what does add do?''],
         calls = [EmbeddingCall ''what does add do?'']\<rparr>)
   \<and> getProviderConfig_name (env (runtime_for ''demo'')) = Some ''Demo Mode''"
  by (simp add: answerQuestion_def searchCode_def createEmbedding_def candidates_def
      sort_by_similarity_def slice0_def limit_or_default_def emit_def Let_def no_options_def
      empty_project_world_eq getProviderConfig_name_def providerConfigs_def getProvider_demo)


end
